theory Spec2Isabelle
  imports Main
begin

section \<open>The real-time data synchronisation client\<close>

text \<open>
  A shallow embedding of the class \<open>ApiClient\<close> (the request executor, the stream manager
  and the event bus share one object) and of the hook \<open>usePlantTelemetry\<close>.

  The client runs on one event-loop thread. Every method is a function from the state
  before the call to the state after it; a method that can throw returns the thrown value
  next to the state, because the mutations made before the throw stay.
\<close>

subsection \<open>Values\<close>

type_synonym event = string
type_synonym cb = nat
type_synonym addr = nat
type_synonym sock = nat

text \<open>What \<open>JSON.parse\<close> and \<open>response.json()\<close> produce.\<close>

datatype json =
    JNull
  | JBool bool
  | JNum int
  | JStr string
  | JArr "json list"
  | JObj "(string \<times> json) list"

text \<open>
  A thrown value: an \<open>Error\<close> instance with its message, or any other value
  (\<open>error instanceof Error\<close> tells them apart).
\<close>

datatype thrown = Error string | NonError

text \<open>
  The second argument of \<open>emit\<close>. \<open>PStatus a\<close> is a reference to the status object at
  address \<open>a\<close>; \<open>PErrorEvent\<close> is the event object the socket hands to \<open>onerror\<close>.
\<close>

datatype payload =
    PUndefined
  | PBool bool
  | PJson json
  | PStatus addr
  | PErrorEvent

text \<open>
  A callback is a \<open>Function\<close> supplied by a caller; the client only stores and calls it.
  A callback is identified by a number (its identity, as \<open>indexOf\<close> compares it) and what
  it does to the client when called is a list of actions: it may register or unregister
  callbacks through the public \<open>on\<close> and \<open>off\<close>, and it may throw. The callbacks of
  \<open>use-api.ts\<close> only set component state: their list is empty.
\<close>

datatype action =
    Register event cb
  | Unregister event cb
  | Throw thrown

type_synonym behaviour = "cb \<Rightarrow> action list"

text \<open>\<open>WebSocket.readyState\<close>.\<close>

datatype ready_state = CONNECTING | OPEN | CLOSING | CLOSED

text \<open>
  The status object \<open>{connected, lastUpdated, latency, errorCount}\<close>, the interface
  \<open>ApiConfig\<close> and the interface \<open>ApiResponse\<close>. The numbers of the configuration are
  counts and milliseconds: natural numbers. A field that may be missing is an option.
\<close>

record conn_status =
  connected :: bool
  lastUpdated :: string
  latency :: nat
  errorCount :: nat

record ApiConfig =
  baseUrl :: string
  timeout :: nat
  retryAttempts :: nat
  wsUrl :: "string option"

record ApiResponse =
  success :: bool
  data :: "json option"
  error :: "string option"
  timestamp :: "string option"

subsection \<open>State\<close>

text \<open>
  The private members \<open>connectionStatus\<close>, \<open>ws\<close> and \<open>listeners\<close>, and the part of the
  platform the methods act on. The member \<open>config\<close> is assigned once in the constructor
  and never again: the methods take it as an argument.

  \<^item> \<open>connectionStatus\<close> holds a reference; the status objects live in \<open>heap\<close>, and
    \<open>nextAddr\<close> is the first address no object has been allocated at (what \<open>heap\<close>
    holds from there on is never read).
  \<^item> \<open>listeners\<close> maps an event to its array. \<open>on\<close> creates the array of an event once
    and no method replaces or deletes it, so the array an \<open>emit\<close> in progress holds is
    always the one stored under the event.
  \<^item> \<open>sockets\<close> lists the ready state of every \<open>WebSocket\<close> constructed so far; a socket
    is named by its position.
  \<^item> \<open>timers\<close> lists the due times of the pending \<open>setTimeout\<close> callbacks of \<open>onclose\<close>.
  \<^item> \<open>now\<close> is the clock in milliseconds (\<open>Date.now()\<close>).
  \<^item> \<open>console\<close>, \<open>calls\<close>, \<open>trace\<close> and \<open>uncaught\<close> record what the client did: console
    lines, callback invocations with their argument, the \<open>fetch\<close> calls and backoff waits
    of \<open>request\<close> in the order they happened, and the exceptions that left an event
    handler.
\<close>

datatype io_event = Fetched | Slept nat

record state =
  connectionStatus :: addr
  ws :: "sock option"
  listeners :: "event \<rightharpoonup> cb list"
  heap :: "addr \<Rightarrow> conn_status"
  nextAddr :: addr
  sockets :: "ready_state list"
  timers :: "nat list"
  now :: nat
  console :: "string list"
  calls :: "(cb \<times> payload) list"
  trace :: "io_event list"
  uncaught :: "thrown list"

text \<open>The client as the constructor leaves it.\<close>

definition init :: state where
  "init = \<lparr> connectionStatus = 0, ws = None, listeners = Map.empty,
      heap = (\<lambda>_. \<lparr> connected = False, lastUpdated = [], latency = 0, errorCount = 0 \<rparr>),
      nextAddr = 1, sockets = [], timers = [], now = 0, console = [], calls = [],
      trace = [], uncaught = [] \<rparr>"

subsection \<open>Event bus: \<open>on\<close>, \<open>off\<close>, \<open>emit\<close>\<close>

definition on :: "event \<Rightarrow> cb \<Rightarrow> state \<Rightarrow> state" where
  "on e c s =
     (let s1 = (if listeners s e = None then s\<lparr>listeners := (listeners s)(e \<mapsto> [])\<rparr> else s)
      in case listeners s1 e of
           None \<Rightarrow> s1
         | Some l \<Rightarrow> s1\<lparr>listeners := (listeners s1)(e \<mapsto> l @ [c])\<rparr>)"

text \<open>\<open>indexOf\<close>: the first position of the callback, \<open>None\<close> for \<open>-1\<close>.\<close>

fun indexOf :: "'a \<Rightarrow> 'a list \<Rightarrow> nat option" where
  "indexOf c [] = None"
| "indexOf c (x # xs) =
     (if x = c then Some 0 else map_option Suc (indexOf c xs))"

text \<open>\<open>splice(index, 1)\<close>.\<close>

definition splice1 :: "nat \<Rightarrow> 'a list \<Rightarrow> 'a list" where
  "splice1 i l = take i l @ drop (Suc i) l"

definition off :: "event \<Rightarrow> cb \<Rightarrow> state \<Rightarrow> state" where
  "off e c s =
     (case listeners s e of
        None \<Rightarrow> s
      | Some l \<Rightarrow>
          (case indexOf c l of
             None \<Rightarrow> s
           | Some i \<Rightarrow> s\<lparr>listeners := (listeners s)(e \<mapsto> splice1 i l)\<rparr>))"

text \<open>Calling a callback: the call is recorded, then its actions run until one throws.\<close>

fun run_actions :: "action list \<Rightarrow> state \<Rightarrow> thrown option \<times> state" where
  "run_actions [] s = (None, s)"
| "run_actions (Register e c # as) s = run_actions as (on e c s)"
| "run_actions (Unregister e c # as) s = run_actions as (off e c s)"
| "run_actions (Throw t # as) s = (Some t, s)"

definition call :: "behaviour \<Rightarrow> cb \<Rightarrow> payload \<Rightarrow> state \<Rightarrow> thrown option \<times> state" where
  "call beh c d s = run_actions (beh c) (s\<lparr>calls := calls s @ [(c, d)]\<rparr>)"

text \<open>
  \<open>Array.prototype.forEach\<close> reads the length once, before the first call, and then visits
  the indices \<open>k = 0, ..., len - 1\<close> of the live array: at each index it calls the callback
  found there at that moment, and skips an index the array no longer has. An exception
  from a callback ends the loop and leaves \<open>forEach\<close>.
\<close>

function forEach :: "behaviour \<Rightarrow> event \<Rightarrow> payload \<Rightarrow> nat \<Rightarrow> nat \<Rightarrow> state \<Rightarrow> thrown option \<times> state" where
  "forEach beh e d k len s =
     (if k < len then
        (case listeners s e of
           None \<Rightarrow> forEach beh e d (Suc k) len s
         | Some l \<Rightarrow>
             if k < length l then
               (case call beh (l ! k) d s of
                  (Some t, s') \<Rightarrow> (Some t, s')
                | (None, s') \<Rightarrow> forEach beh e d (Suc k) len s')
             else forEach beh e d (Suc k) len s)
      else (None, s))"
  by pat_completeness auto
termination
  by (relation "measure (\<lambda>(beh, e, d, k, len, s). len - k)") auto

declare forEach.simps [simp del]

definition emit :: "behaviour \<Rightarrow> event \<Rightarrow> payload \<Rightarrow> state \<Rightarrow> thrown option \<times> state" where
  "emit beh e d s =
     (case listeners s e of
        None \<Rightarrow> (None, s)
      | Some l \<Rightarrow> forEach beh e d 0 (length l) s)"

subsection \<open>Connection status\<close>

text \<open>
  \<open>new Date().toISOString()\<close>: the text of the clock reading. The claims never look inside
  the text, only at whether it is empty, so the reading is written in decimal.
\<close>

definition digit :: "nat \<Rightarrow> char" where
  "digit n = ''0123456789'' ! n"

function string_of_nat :: "nat \<Rightarrow> string" where
  "string_of_nat n =
     (if n < 10 then [digit n] else string_of_nat (n div 10) @ [digit (n mod 10)])"
  by pat_completeness auto
termination
  by (relation "measure id") auto

declare string_of_nat.simps [simp del]

definition toISOString :: "nat \<Rightarrow> string" where
  "toISOString t = string_of_nat t"

text \<open>
  \<open>getConnectionStatus\<close> returns \<open>{ ...this.connectionStatus }\<close>: a new object with the
  fields of the internal one. The result is the address of the new object.
\<close>

definition getConnectionStatus :: "state \<Rightarrow> addr \<times> state" where
  "getConnectionStatus s =
     (nextAddr s,
      s\<lparr>heap := (heap s)(nextAddr s := heap s (connectionStatus s)),
        nextAddr := Suc (nextAddr s)\<rparr>)"

text \<open>
  \<open>updateConnectionStatus\<close> assigns a new object to the member and emits a reference to
  it. \<open>latency || this.connectionStatus.latency\<close> keeps the old latency when the argument
  is missing or zero.
\<close>

definition updateConnectionStatus ::
  "behaviour \<Rightarrow> bool \<Rightarrow> nat option \<Rightarrow> state \<Rightarrow> thrown option \<times> state" where
  "updateConnectionStatus beh conn lat s =
     (let old = heap s (connectionStatus s);
          new = \<lparr> connected = conn,
                  lastUpdated = toISOString (now s),
                  latency = (case lat of
                               None \<Rightarrow> latency old
                             | Some l \<Rightarrow> if l = 0 then latency old else l),
                  errorCount = (if conn then 0 else errorCount old) \<rparr>;
          a = nextAddr s
      in emit beh ''connection_status'' (PStatus a)
           (s\<lparr>heap := (heap s)(a := new), nextAddr := Suc a, connectionStatus := a\<rparr>))"

subsection \<open>Request executor: \<open>request\<close>\<close>

text \<open>
  What one \<open>fetch\<close> call does, as the network decides it: after some milliseconds the
  promise is rejected with a thrown value, or it resolves with a response that has a
  status, a status text and a body. The body is what \<open>response.json()\<close> gives: a thrown
  value when the body is not JSON, the decoded value otherwise.
\<close>

datatype fetch_outcome =
    Rejects nat thrown
  | Responds nat nat string "thrown + json"

text \<open>\<open>response.ok\<close>: the status is in the range 200 to 299.\<close>

definition ok :: "nat \<Rightarrow> bool" where
  "ok status = (200 \<le> status \<and> status \<le> 299)"

text \<open>\<open>error instanceof Error ? error.message : 'Unknown error'\<close>.\<close>

fun message :: "thrown \<Rightarrow> string" where
  "message (Error m) = m"
| "message NonError = ''Unknown error''"

text \<open>\<open>this.connectionStatus.errorCount++\<close> writes into the object the member refers to.\<close>

definition incErrorCount :: "state \<Rightarrow> state" where
  "incErrorCount s =
     s\<lparr>heap := (heap s)(connectionStatus s :=
          (heap s (connectionStatus s))\<lparr>errorCount := Suc (errorCount (heap s (connectionStatus s)))\<rparr>)\<rparr>"

text \<open>\<open>await new Promise(resolve => setTimeout(resolve, ms))\<close>.\<close>

definition sleep :: "nat \<Rightarrow> state \<Rightarrow> state" where
  "sleep ms s = s\<lparr>now := now s + ms, trace := trace s @ [Slept ms]\<rparr>"

text \<open>
  The \<open>try\<close> block of one attempt. \<open>Inl\<close> is the value the block throws, which the
  \<open>catch\<close> receives; \<open>Inr\<close> is the response the block returns.
\<close>

definition try_block ::
  "behaviour \<Rightarrow> fetch_outcome \<Rightarrow> nat \<Rightarrow> state \<Rightarrow> (thrown + ApiResponse) \<times> state" where
  "try_block beh outcome startTime s =
     (let s0 = s\<lparr>trace := trace s @ [Fetched]\<rparr> in
      case outcome of
        Rejects dur t \<Rightarrow> (Inl t, s0\<lparr>now := now s0 + dur\<rparr>)
      | Responds dur status statusText body \<Rightarrow>
          (let s1 = s0\<lparr>now := now s0 + dur\<rparr>;
               lat = now s1 - startTime
           in case updateConnectionStatus beh True (Some lat) s1 of
                (Some t, s2) \<Rightarrow> (Inl t, s2)
              | (None, s2) \<Rightarrow>
                  if \<not> ok status then
                    (Inl (Error (''HTTP '' @ string_of_nat status @ '': '' @ statusText)), s2)
                  else
                    (case body of
                       Inl t \<Rightarrow> (Inl t, s2)
                     | Inr j \<Rightarrow>
                         (Inr \<lparr> success = True, data = Some j, error = None,
                                timestamp = Some (toISOString (now s2)) \<rparr>, s2))))"

text \<open>
  The \<open>for\<close> loop of \<open>request\<close>, from the attempt index \<open>attempt\<close> on. The network is a
  function from the attempt index to the outcome of that attempt's \<open>fetch\<close>. The result is
  \<open>Inl\<close> when an exception leaves \<open>request\<close> (the promise is rejected) and \<open>Inr\<close> when it
  returns a response. The loop runs without another operation of the client in between.
\<close>

function request_loop ::
  "behaviour \<Rightarrow> ApiConfig \<Rightarrow> (nat \<Rightarrow> fetch_outcome) \<Rightarrow> nat \<Rightarrow> nat \<Rightarrow> state
     \<Rightarrow> (thrown + ApiResponse) \<times> state" where
  "request_loop beh cfg net startTime attempt s =
     (if attempt \<le> retryAttempts cfg then
        (case try_block beh (net attempt) startTime s of
           (Inr response, s1) \<Rightarrow> (Inr response, s1)
         | (Inl err, s1) \<Rightarrow>
             (let s2 = incErrorCount s1 in
              if attempt = retryAttempts cfg then
                (case updateConnectionStatus beh False None s2 of
                   (Some t, s3) \<Rightarrow> (Inl t, s3)
                 | (None, s3) \<Rightarrow>
                     (Inr \<lparr> success = False, data = None, error = Some (message err),
                            timestamp = Some (toISOString (now s3)) \<rparr>, s3))
              else
                request_loop beh cfg net startTime (Suc attempt)
                  (sleep (2 ^ attempt * 1000) s2)))
      else
        (Inr \<lparr> success = False, data = None, error = Some ''Max retries exceeded'',
               timestamp = None \<rparr>, s))"
  by pat_completeness auto
termination
  by (relation "measure (\<lambda>(beh, cfg, net, startTime, attempt, s). Suc (retryAttempts cfg) - attempt)")
     auto

declare request_loop.simps [simp del]

text \<open>
  \<open>request\<close>: the network is asked by URL; \<open>options\<close> only travel to \<open>fetch\<close> and are part
  of what the network decides on.
\<close>

definition request ::
  "behaviour \<Rightarrow> ApiConfig \<Rightarrow> (string \<Rightarrow> nat \<Rightarrow> fetch_outcome) \<Rightarrow> string \<Rightarrow> state
     \<Rightarrow> (thrown + ApiResponse) \<times> state" where
  "request beh cfg net endpoint s =
     request_loop beh cfg (net (baseUrl cfg @ endpoint)) (now s) 0 s"

text \<open>The default configuration, with the environment variables unset.\<close>

definition defaultConfig :: ApiConfig where
  "defaultConfig = \<lparr> baseUrl = ''http://localhost:8000'', timeout = 10000,
      retryAttempts = 3, wsUrl = Some ''ws://localhost:8000/ws'' \<rparr>"

subsection \<open>Stream manager: \<open>connectWebSocket\<close>, \<open>disconnectWebSocket\<close>\<close>

definition log :: "string \<Rightarrow> state \<Rightarrow> state" where
  "log line s = s\<lparr>console := console s @ [line]\<rparr>"

text \<open>\<open>this.ws?.readyState\<close>: \<open>None\<close> is \<open>undefined\<close>.\<close>

definition readyState :: "state \<Rightarrow> ready_state option" where
  "readyState s =
     (case ws s of
        None \<Rightarrow> None
      | Some k \<Rightarrow> if k < length (sockets s) then Some (sockets s ! k) else None)"

text \<open>
  \<open>connectWebSocket\<close>. \<open>new WebSocket(url)\<close> throws on a URL it does not accept; which
  URLs those are is the platform's, given here as \<open>url_ok\<close>. The four handlers are
  assigned to every socket the constructor returns; they are the functions \<open>onopen\<close>,
  \<open>onmessage\<close>, \<open>onclose\<close> and \<open>onerror\<close> below.
\<close>

definition connectWebSocket :: "(string \<Rightarrow> bool) \<Rightarrow> ApiConfig \<Rightarrow> state \<Rightarrow> state" where
  "connectWebSocket url_ok cfg s =
     (case wsUrl cfg of
        None \<Rightarrow> s
      | Some url \<Rightarrow>
          if url = [] \<or> readyState s = Some OPEN then s
          else if url_ok url then
            s\<lparr>sockets := sockets s @ [CONNECTING], ws := Some (length (sockets s))\<rparr>
          else log ''WebSocket connection failed:'' s)"

text \<open>
  \<open>WebSocket.close()\<close>: a socket that is connecting or open starts closing; the close
  event comes later, from the platform.
\<close>

definition close :: "sock \<Rightarrow> state \<Rightarrow> state" where
  "close k s =
     (if k < length (sockets s) \<and> (sockets s ! k = CONNECTING \<or> sockets s ! k = OPEN)
      then s\<lparr>sockets := (sockets s)[k := CLOSING]\<rparr> else s)"

definition disconnectWebSocket :: "state \<Rightarrow> state" where
  "disconnectWebSocket s =
     (case ws s of
        None \<Rightarrow> s
      | Some k \<Rightarrow> (close k s)\<lparr>ws := None\<rparr>)"

definition onopen :: "behaviour \<Rightarrow> state \<Rightarrow> thrown option \<times> state" where
  "onopen beh s = emit beh ''ws_connected'' (PBool True) (log ''WebSocket connected'' s)"

text \<open>
  \<open>message.type\<close> and \<open>message.data\<close> on a parsed value: reading a property of
  \<open>null\<close> throws a \<open>TypeError\<close>; an object gives the value under the key or \<open>undefined\<close>;
  numbers, booleans, strings and arrays have neither property.
\<close>

fun get_prop :: "json \<Rightarrow> string \<Rightarrow> thrown + json option" where
  "get_prop JNull key = Inl (Error ''Cannot read properties of null'')"
| "get_prop (JObj kvs) key = Inr (map_of kvs key)"
| "get_prop other key = Inr None"

fun to_payload :: "json option \<Rightarrow> payload" where
  "to_payload None = PUndefined"
| "to_payload (Some j) = PJson j"

text \<open>
  \<open>this.emit(message.type, message.data)\<close>: the keys of \<open>listeners\<close> are strings, so a
  type that is not a string finds no array.
\<close>

fun emit_message :: "behaviour \<Rightarrow> json option \<Rightarrow> json option \<Rightarrow> state \<Rightarrow> thrown option \<times> state" where
  "emit_message beh (Some (JStr e)) d s = emit beh e (to_payload d) s"
| "emit_message beh ty d s = (None, s)"

text \<open>
  \<open>onmessage\<close>. \<open>JSON.parse\<close> is the platform's: \<open>parse frame\<close> is \<open>None\<close> where it throws
  its \<open>SyntaxError\<close>. The \<open>catch\<close> takes whatever the \<open>try\<close> block throws.
\<close>

definition onmessage ::
  "behaviour \<Rightarrow> (string \<Rightarrow> json option) \<Rightarrow> string \<Rightarrow> state \<Rightarrow> thrown option \<times> state" where
  "onmessage beh parse frame s =
     (case parse frame of
        None \<Rightarrow> (None, log ''WebSocket message parse error:'' s)
      | Some msg \<Rightarrow>
          (case get_prop msg ''type'' of
             Inl t \<Rightarrow> (None, log ''WebSocket message parse error:'' s)
           | Inr ty \<Rightarrow>
               (case get_prop msg ''data'' of
                  Inl t \<Rightarrow> (None, log ''WebSocket message parse error:'' s)
                | Inr d \<Rightarrow>
                    (case emit_message beh ty d s of
                       (Some t, s') \<Rightarrow> (None, log ''WebSocket message parse error:'' s')
                     | (None, s') \<Rightarrow> (None, s')))))"

text \<open>
  \<open>onclose\<close>: the reconnect is scheduled after the emit, so an exception from a listener
  leaves the handler before \<open>setTimeout\<close>.
\<close>

definition onclose :: "behaviour \<Rightarrow> state \<Rightarrow> thrown option \<times> state" where
  "onclose beh s =
     (case emit beh ''ws_disconnected'' (PBool True) (log ''WebSocket disconnected'' s) of
        (Some t, s') \<Rightarrow> (Some t, s')
      | (None, s') \<Rightarrow> (None, s'\<lparr>timers := timers s' @ [now s' + 5000]\<rparr>))"

definition onerror :: "behaviour \<Rightarrow> state \<Rightarrow> thrown option \<times> state" where
  "onerror beh s = emit beh ''ws_error'' PErrorEvent (log ''WebSocket error:'' s)"

subsection \<open>The platform: socket events and timers\<close>

text \<open>
  What the browser does with a socket, as far as the handlers see it: it moves the ready
  state and then calls the handler; an exception that leaves a handler is reported and
  changes nothing else. A message is delivered only to an open socket.
\<close>

datatype ws_event = EvOpen | EvMessage string | EvClose | EvError

definition handled :: "thrown option \<times> state \<Rightarrow> state" where
  "handled r =
     (case r of
        (None, s) \<Rightarrow> s
      | (Some t, s) \<Rightarrow> s\<lparr>uncaught := uncaught s @ [t]\<rparr>)"

definition dispatch ::
  "behaviour \<Rightarrow> (string \<Rightarrow> json option) \<Rightarrow> sock \<Rightarrow> ws_event \<Rightarrow> state \<Rightarrow> state" where
  "dispatch beh parse k ev s =
     (if k < length (sockets s) then
        (case ev of
           EvOpen \<Rightarrow>
             if sockets s ! k = CONNECTING
             then handled (onopen beh (s\<lparr>sockets := (sockets s)[k := OPEN]\<rparr>)) else s
         | EvMessage frame \<Rightarrow>
             if sockets s ! k = OPEN then handled (onmessage beh parse frame s) else s
         | EvClose \<Rightarrow>
             if sockets s ! k \<noteq> CLOSED
             then handled (onclose beh (s\<lparr>sockets := (sockets s)[k := CLOSED]\<rparr>)) else s
         | EvError \<Rightarrow> handled (onerror beh s))
      else s)"

text \<open>
  Letting \<open>dt\<close> milliseconds pass: every pending timeout that is due by then runs its
  callback \<open>() => this.connectWebSocket()\<close>, in the order the timeouts were set.
\<close>

definition advance :: "(string \<Rightarrow> bool) \<Rightarrow> ApiConfig \<Rightarrow> nat \<Rightarrow> state \<Rightarrow> state" where
  "advance url_ok cfg dt s =
     (let t = now s + dt;
          due = filter (\<lambda>d. d \<le> t) (timers s)
      in fold (\<lambda>d. connectWebSocket url_ok cfg) due
           (s\<lparr>now := t, timers := filter (\<lambda>d. \<not> d \<le> t) (timers s)\<rparr>))"

subsection \<open>Subscription hook: \<open>usePlantTelemetry\<close>\<close>

text \<open>
  The four \<open>useState\<close> cells of the hook. The field names carry the prefix \<open>h_\<close> because
  \<open>data\<close>, \<open>error\<close> and \<open>lastUpdated\<close> are fields of the records above.
\<close>

record hook_state =
  h_data :: "json option"
  h_loading :: bool
  h_error :: "string option"
  h_lastUpdated :: "string option"

text \<open>JavaScript truthiness of a decoded value.\<close>

fun truthy :: "json \<Rightarrow> bool" where
  "truthy JNull = False"
| "truthy (JBool b) = b"
| "truthy (JNum n) = (n \<noteq> 0)"
| "truthy (JStr s) = (s \<noteq> [])"
| "truthy (JArr xs) = True"
| "truthy (JObj kvs) = True"

text \<open>\<open>x || fallback\<close> for an optional string: \<open>undefined\<close> and the empty string are falsy.\<close>

fun or_else :: "string option \<Rightarrow> string \<Rightarrow> string" where
  "or_else None fallback = fallback"
| "or_else (Some x) fallback = (if x = [] then fallback else x)"

text \<open>
  \<open>fetchData\<close>, from the call to the end of its \<open>finally\<close> block. \<open>result\<close> is what
  \<open>await apiClient.getPlantTelemetry(plantId)\<close> gives: \<open>Inl\<close> when the promise is
  rejected, \<open>Inr\<close> the response otherwise; \<open>nowISO\<close> is \<open>new Date().toISOString()\<close> at
  that moment.
\<close>

definition fetchData ::
  "string option \<Rightarrow> bool \<Rightarrow> thrown + ApiResponse \<Rightarrow> string \<Rightarrow> hook_state \<Rightarrow> hook_state" where
  "fetchData plantId enabled result nowISO h =
     (if plantId = None \<or> plantId = Some [] \<or> \<not> enabled then h
      else
        (let h1 = h\<lparr>h_loading := True, h_error := None\<rparr>;
             h2 = (case result of
                     Inr response \<Rightarrow>
                       if success response \<and> (case data response of None \<Rightarrow> False | Some j \<Rightarrow> truthy j)
                       then h1\<lparr>h_data := data response,
                               h_lastUpdated := Some (or_else (timestamp response) nowISO)\<rparr>
                       else h1\<lparr>h_error := Some (or_else (error response) ''Failed to fetch plant data'')\<rparr>
                   | Inl err \<Rightarrow> h1\<lparr>h_error := Some (message err)\<rparr>)
         in h2\<lparr>h_loading := False\<rparr>))"

section \<open>Vocabulary of the properties\<close>

subsection \<open>Callbacks\<close>

text \<open>
  An action keeps the array of event \<open>e\<close> in place when it neither throws nor
  unregisters from \<open>e\<close>; \<open>registered e as\<close> lists the callbacks the actions register
  for \<open>e\<close>, in order.
\<close>

fun keeps :: "event \<Rightarrow> action \<Rightarrow> bool" where
  "keeps e (Register e' c) = True"
| "keeps e (Unregister e' c) = (e' \<noteq> e)"
| "keeps e (Throw t) = False"

fun registered :: "event \<Rightarrow> action list \<Rightarrow> cb list" where
  "registered e [] = []"
| "registered e (Register e' c # as) = (if e' = e then c # registered e as else registered e as)"
| "registered e (a # as) = registered e as"

fun is_throw :: "action \<Rightarrow> bool" where
  "is_throw (Throw t) = True"
| "is_throw a = False"

definition never_throws :: "behaviour \<Rightarrow> bool" where
  "never_throws beh = (\<forall>c. list_all (\<lambda>a. \<not> is_throw a) (beh c))"

text \<open>
  \<open>only_bus s s'\<close>: the state \<open>s'\<close> differs from \<open>s\<close> at most in the listener arrays
  and in the record of callback invocations.
\<close>

definition only_bus :: "state \<Rightarrow> state \<Rightarrow> bool" where
  "only_bus s s' = (s' = s\<lparr>listeners := listeners s', calls := calls s'\<rparr>)"

subsection \<open>Requests\<close>

text \<open>The status object the member refers to.\<close>

definition status :: "state \<Rightarrow> conn_status" where
  "status s = heap s (connectionStatus s)"

text \<open>
  An attempt fails when \<open>fetch\<close> is rejected, when the response is not in the 2xx range,
  or when its body does not decode; \<open>attempt_error\<close> is the value that then reaches the
  \<open>catch\<close> (given that no callback throws). A rejected \<open>fetch\<close> is a transport error.
\<close>

fun fails :: "fetch_outcome \<Rightarrow> bool" where
  "fails (Rejects dur t) = True"
| "fails (Responds dur st txt body) = (\<not> ok st \<or> isl body)"

fun attempt_error :: "fetch_outcome \<Rightarrow> thrown" where
  "attempt_error (Rejects dur t) = t"
| "attempt_error (Responds dur st txt body) =
     (if \<not> ok st then Error (''HTTP '' @ string_of_nat st @ '': '' @ txt)
      else case body of Inl t \<Rightarrow> t | Inr j \<Rightarrow> NonError)"

fun is_rejected :: "fetch_outcome \<Rightarrow> bool" where
  "is_rejected (Rejects dur t) = True"
| "is_rejected (Responds dur st txt body) = False"

text \<open>The backoff schedule: a fetch before every wait, the waits \<open>2^i * 1000\<close>.\<close>

definition schedule :: "nat \<Rightarrow> nat \<Rightarrow> io_event list" where
  "schedule a n = concat (map (\<lambda>i. [Fetched, Slept (2 ^ i * 1000)]) [a..<n]) @ [Fetched]"

text \<open>The number of \<open>fetch\<close> calls in a trace, and the waits in it, in order.\<close>

fun attempts :: "io_event list \<Rightarrow> nat" where
  "attempts [] = 0"
| "attempts (Fetched # tr) = Suc (attempts tr)"
| "attempts (Slept ms # tr) = attempts tr"

fun delays :: "io_event list \<Rightarrow> nat list" where
  "delays [] = []"
| "delays (Fetched # tr) = delays tr"
| "delays (Slept ms # tr) = ms # delays tr"

text \<open>
  The error count after one more failed attempt, from the count \<open>n\<close> before the attempt:
  the \<open>catch\<close> adds one, to \<open>n\<close> after a rejected \<open>fetch\<close> and to 0 after a response,
  because the status update that follows every response has set the count to 0.
\<close>

definition count_next :: "nat \<Rightarrow> fetch_outcome \<Rightarrow> nat" where
  "count_next n outcome = Suc (if is_rejected outcome then n else 0)"

subsection \<open>Operations on the client, and a caller that writes into a record it holds\<close>

text \<open>
  The public operations: \<open>on\<close>, \<open>off\<close>, a request (through \<open>getPlants\<close> and the other
  API methods) with the network it meets, \<open>connectWebSocket\<close>, \<open>disconnectWebSocket\<close>
  and \<open>getConnectionStatus\<close>; and what the platform does in between: a socket event, or
  time passing.
\<close>

datatype operation =
    OpOn event cb
  | OpOff event cb
  | OpRequest string "string \<Rightarrow> nat \<Rightarrow> fetch_outcome"
  | OpConnect
  | OpDisconnect
  | OpGetStatus
  | OpSocket sock ws_event
  | OpAdvance nat

fun step ::
  "behaviour \<Rightarrow> (string \<Rightarrow> json option) \<Rightarrow> (string \<Rightarrow> bool) \<Rightarrow> ApiConfig
     \<Rightarrow> operation \<Rightarrow> state \<Rightarrow> state" where
  "step beh parse url_ok cfg (OpOn e c) s = on e c s"
| "step beh parse url_ok cfg (OpOff e c) s = off e c s"
| "step beh parse url_ok cfg (OpRequest endpoint net) s = snd (request beh cfg net endpoint s)"
| "step beh parse url_ok cfg OpConnect s = connectWebSocket url_ok cfg s"
| "step beh parse url_ok cfg OpDisconnect s = disconnectWebSocket s"
| "step beh parse url_ok cfg OpGetStatus s = snd (getConnectionStatus s)"
| "step beh parse url_ok cfg (OpSocket k ev) s = dispatch beh parse k ev s"
| "step beh parse url_ok cfg (OpAdvance dt) s = advance url_ok cfg dt s"

text \<open>
  \<open>poke a v\<close>: code outside the client assigns the fields of the record at address \<open>a\<close>,
  leaving the value \<open>v\<close> there.
\<close>

definition poke :: "addr \<Rightarrow> conn_status \<Rightarrow> state \<Rightarrow> state" where
  "poke a v s = s\<lparr>heap := (heap s)(a := v)\<rparr>"

text \<open>
  A history after a \<open>getConnectionStatus\<close> that returned the record at \<open>a\<close>: operations
  of the client, and writes of the caller into that record.
\<close>

datatype event_step = Client operation | Mutate conn_status

fun run ::
  "behaviour \<Rightarrow> (string \<Rightarrow> json option) \<Rightarrow> (string \<Rightarrow> bool) \<Rightarrow> ApiConfig
     \<Rightarrow> addr \<Rightarrow> event_step list \<Rightarrow> state \<Rightarrow> state" where
  "run beh parse url_ok cfg a [] s = s"
| "run beh parse url_ok cfg a (Client op # rest) s =
     run beh parse url_ok cfg a rest (step beh parse url_ok cfg op s)"
| "run beh parse url_ok cfg a (Mutate v # rest) s =
     run beh parse url_ok cfg a rest (poke a v s)"

fun client_steps :: "event_step list \<Rightarrow> event_step list" where
  "client_steps [] = []"
| "client_steps (Client op # rest) = Client op # client_steps rest"
| "client_steps (Mutate v # rest) = client_steps rest"

text \<open>
  The allocator's invariant: the member refers to an allocated object. It holds in the
  initial state and every operation keeps it. An address is foreign when an object was
  allocated there and the member does not refer to it.
\<close>

definition allocated :: "state \<Rightarrow> bool" where
  "allocated s = (connectionStatus s < nextAddr s)"

definition foreign :: "addr \<Rightarrow> state \<Rightarrow> bool" where
  "foreign a s = (a < nextAddr s \<and> a \<noteq> connectionStatus s \<and> connectionStatus s < nextAddr s)"

subsection \<open>Example inputs\<close>

text \<open>
  Callbacks: in each behaviour only callback 0 acts; \<open>quiet\<close> is the behaviour of
  callbacks that touch nothing of the client.
\<close>

definition quiet :: behaviour where
  "quiet c = []"

definition unregisters_itself :: behaviour where
  "unregisters_itself c = (if c = 0 then [Unregister ''telemetry'' 0] else [])"

definition registers_another :: behaviour where
  "registers_another c = (if c = 0 then [Register ''telemetry'' 7] else [])"

definition first_throws :: behaviour where
  "first_throws c = (if c = 0 then [Throw (Error ''boom'')] else [])"

definition second_unregisters_and_throws :: behaviour where
  "second_unregisters_and_throws c =
     (if c = 1 then [Unregister ''telemetry'' 1, Throw (Error ''boom'')] else [])"

text \<open>A client with three telemetry listeners, and one with a connection status listener.\<close>

definition three_listeners :: state where
  "three_listeners = on ''telemetry'' 2 (on ''telemetry'' 1 (on ''telemetry'' 0 init))"

definition status_listener :: state where
  "status_listener = on ''connection_status'' 0 init"

text \<open>The platform: every URL is accepted, and \<open>JSON.parse\<close> on the two frames used below.\<close>

definition any_url :: "string \<Rightarrow> bool" where
  "any_url url = True"

definition telemetry_frame :: string where
  \<open>telemetry_frame = ''{"type":"telemetry","data":{"id":"p1"}}''\<close>

definition parse_example :: "string \<Rightarrow> json option" where
  \<open>parse_example frame =
     (if frame = telemetry_frame
      then Some (JObj [(''type'', JStr ''telemetry''), (''data'', JObj [(''id'', JStr ''p1'')])])
      else None)\<close>

text \<open>
  A client with one telemetry listener after \<open>connectWebSocket\<close>, then after the socket
  has opened, then after \<open>disconnectWebSocket\<close> and the close event of the socket.
\<close>

definition connecting :: state where
  "connecting = connectWebSocket any_url defaultConfig (on ''telemetry'' 0 init)"

definition opened :: state where
  "opened = dispatch quiet parse_example 0 EvOpen connecting"

definition disconnected :: state where
  "disconnected = dispatch quiet parse_example 0 EvClose (disconnectWebSocket opened)"

text \<open>A client with three telemetry listeners and an open socket.\<close>

definition opened_three :: state where
  "opened_three =
     dispatch first_throws parse_example 0 EvOpen
       (connectWebSocket any_url defaultConfig three_listeners)"

text \<open>Configurations with no retry and with one retry.\<close>

definition no_retry :: ApiConfig where
  "no_retry = defaultConfig\<lparr>retryAttempts := 0\<rparr>"


text \<open>
  Four networks: one where every \<open>fetch\<close> is rejected at once, one where the server
  answers every request with status 500 after 50 ms, one where it answers with status
  200 and an empty list after 20 seconds, and one where the first \<open>fetch\<close> is rejected
  and the later ones are answered with status 200.
\<close>

definition unreachable :: "string \<Rightarrow> nat \<Rightarrow> fetch_outcome" where
  "unreachable url i = Rejects 0 (Error ''Failed to fetch'')"


definition slow_server :: "string \<Rightarrow> nat \<Rightarrow> fetch_outcome" where
  "slow_server url i = Responds 20000 200 ''OK'' (Inr (JArr []))"


text \<open>A snapshot a hook holds, and a failure response.\<close>

definition held_snapshot :: hook_state where
  "held_snapshot = \<lparr> h_data = Some (JObj [(''id'', JStr ''p1'')]), h_loading = False,
      h_error = None, h_lastUpdated = Some ''2025-09-07T10:00:00.000Z'' \<rparr>"

definition failed_response :: ApiResponse where
  "failed_response = \<lparr> success = False, data = None, error = Some ''HTTP 500: Internal Server Error'',
      timestamp = Some ''2025-09-07T10:05:00.000Z'' \<rparr>"

text \<open>What a caller writes into a status record it was handed.\<close>

definition overwritten :: conn_status where
  "overwritten = \<lparr> connected = True, lastUpdated = ''tampered'', latency = 9, errorCount = 99 \<rparr>"

section \<open>Event bus\<close>

lemma on_same: "listeners s e = Some l \<Longrightarrow> listeners (on e c s) e = Some (l @ [c])"
  by (simp add: on_def)

lemma on_other: "e' \<noteq> e \<Longrightarrow> listeners (on e' c s) e = listeners s e"
  by (simp add: on_def Let_def split: option.splits)

lemma on_calls: "calls (on e c s) = calls s"
  by (simp add: on_def Let_def split: option.splits)

lemma off_other: "e' \<noteq> e \<Longrightarrow> listeners (off e' c s) e = listeners s e"
  by (simp add: off_def split: option.splits)

lemma off_calls: "calls (off e c s) = calls s"
  by (simp add: off_def split: option.splits)

text \<open>Actions that keep the array of \<open>e\<close> only append to it, and the rest runs after them.\<close>

lemma run_actions_keeps:
  "list_all (keeps e) as \<Longrightarrow> listeners s e = Some l \<Longrightarrow>
   \<exists>s'. run_actions (as @ tl_acts) s = run_actions tl_acts s' \<and> calls s' = calls s
        \<and> listeners s' e = Some (l @ registered e as)"
proof (induction as s arbitrary: l rule: run_actions.induct)
  case (1 s)
  then show ?case by (intro exI [of _ s]) simp
next
  case (2 e' c as s)
  show ?case
  proof (cases "e' = e")
    case True
    with 2 show ?thesis by (simp add: on_same on_calls)
  next
    case False
    with 2 show ?thesis by (simp add: on_other on_calls)
  qed
next
  case (3 e' c as s)
  then show ?case by (simp add: off_other off_calls)
next
  case (4 t as s)
  then show ?case by simp
qed

lemma call_keeps:
  assumes "list_all (keeps e) (beh c)" and "listeners s e = Some l"
  shows "\<exists>s'. call beh c d s = (None, s') \<and> calls s' = calls s @ [(c, d)]
        \<and> listeners s' e = Some (l @ registered e (beh c))"
  using run_actions_keeps [of e "beh c" "s\<lparr>calls := calls s @ [(c, d)]\<rparr>" l "[]"] assms
  by (simp add: call_def)

text \<open>The actions before the first throw leave the record of calls alone.\<close>

lemma run_actions_until_throw:
  "list_all (\<lambda>a. \<not> is_throw a) as \<Longrightarrow>
   \<exists>s'. run_actions (as @ Throw t # rest) s = (Some t, s') \<and> calls s' = calls s"
proof (induction as s rule: run_actions.induct)
  case (1 s)
  then show ?case by simp
next
  case (2 e c as s)
  then show ?case by (simp add: on_calls)
next
  case (3 e c as s)
  then show ?case by (simp add: off_calls)
next
  case (4 t' as s)
  then show ?case by simp
qed

lemma call_throws:
  assumes "beh c = as @ Throw t # rest" and "list_all (\<lambda>a. \<not> is_throw a) as"
  shows "\<exists>s'. call beh c d s = (Some t, s') \<and> calls s' = calls s @ [(c, d)]"
  using run_actions_until_throw [OF assms(2), of t rest "s\<lparr>calls := calls s @ [(c, d)]\<rparr>"] assms(1)
  by (auto simp add: call_def)

lemma forEach_done: "forEach beh e d len len s = (None, s)"
  by (subst forEach.simps) simp

text \<open>
  The loop from index \<open>k\<close> to index \<open>m\<close>, when the callbacks at those indices keep the
  array in place: each is called once, in order, and the array only grows at its end.
\<close>

lemma forEach_run:
  assumes "\<forall>i. k \<le> i \<and> i < m \<longrightarrow> list_all (keeps e) (beh (l ! i))"
    and "listeners s e = Some (l @ ex)" and "k \<le> m" and "m \<le> length l" and "m \<le> len"
  shows "\<exists>s'. forEach beh e d k len s = forEach beh e d m len s'
        \<and> calls s' = calls s @ map (\<lambda>c. (c, d)) (take (m - k) (drop k l))
        \<and> listeners s' e = Some (l @ ex @ concat (map (\<lambda>c. registered e (beh c)) (take (m - k) (drop k l))))"
  using assms
proof (induction "m - k" arbitrary: k s ex)
  case 0
  then show ?case by (intro exI [of _ s]) simp
next
  case (Suc n)
  then have k: "k < m" "k < length l" "k < len" by simp_all
  then have q: "list_all (keeps e) (beh (l ! k))" using Suc.prems(1) by simp
  from call_keeps [of e beh "l ! k" s "l @ ex" d, OF q Suc.prems(2)]
  obtain s1 where s1: "call beh (l ! k) d s = (None, s1)" "calls s1 = calls s @ [(l ! k, d)]"
    "listeners s1 e = Some (l @ ex @ registered e (beh (l ! k)))" by auto
  have n: "n = m - Suc k" using Suc.hyps(2) by simp
  have r: "\<forall>i. Suc k \<le> i \<and> i < m \<longrightarrow> list_all (keeps e) (beh (l ! i))"
    using Suc.prems(1) by simp
  from Suc.hyps(1) [OF n r, of s1 "ex @ registered e (beh (l ! k))"] s1(3) k Suc.prems
  obtain s' where s': "forEach beh e d (Suc k) len s1 = forEach beh e d m len s'"
    "calls s' = calls s1 @ map (\<lambda>c. (c, d)) (take (m - Suc k) (drop (Suc k) l))"
    "listeners s' e = Some (l @ (ex @ registered e (beh (l ! k))) @ concat (map (\<lambda>c. registered e (beh c)) (take (m - Suc k) (drop (Suc k) l))))"
    by auto
  have d: "take (m - k) (drop k l) = l ! k # take (m - Suc k) (drop (Suc k) l)"
    using k by (metis Cons_nth_drop_Suc Suc_diff_Suc take_Suc_Cons)
  have "forEach beh e d k len s = forEach beh e d m len s'"
    using k Suc.prems(2) s1(1) s'(1) by (subst forEach.simps) (simp add: nth_append)
  then show ?case using s' s1 d by auto
qed

text \<open>
  Claim C1, as amended. When no callback registered for the event at the moment \<open>emit\<close>
  starts throws or unregisters a callback of that event, \<open>emit\<close> returns normally, has
  called exactly those callbacks with the payload, each once and in registration order,
  and the callbacks registered during the dispatch are at the end of the array, for
  later emits only.
\<close>

theorem emit_delivers_in_order:
  assumes "listeners s e = Some l" and "\<forall>c \<in> set l. list_all (keeps e) (beh c)"
  shows "fst (emit beh e d s) = None
       \<and> calls (snd (emit beh e d s)) = calls s @ map (\<lambda>c. (c, d)) l
       \<and> listeners (snd (emit beh e d s)) e = Some (l @ concat (map (\<lambda>c. registered e (beh c)) l))"
proof -
  have "\<forall>i. 0 \<le> i \<and> i < length l \<longrightarrow> list_all (keeps e) (beh (l ! i))"
    using assms(2) by simp
  from forEach_run [OF this, of s "[]" "length l" d] assms(1)
  show ?thesis by (auto simp add: emit_def forEach_done)
qed

theorem emit_delivers_in_order_witness:
  "listeners three_listeners ''telemetry'' = Some [0, 1, 2]
   \<and> list_all (keeps ''telemetry'') (registers_another 0)
   \<and> list_all (keeps ''telemetry'') (registers_another 1)
   \<and> list_all (keeps ''telemetry'') (registers_another 2)
   \<and> fst (emit registers_another ''telemetry'' (PBool True) three_listeners) = None
   \<and> calls (snd (emit registers_another ''telemetry'' (PBool True) three_listeners))
       = [(0, PBool True), (1, PBool True), (2, PBool True)]
   \<and> listeners (snd (emit registers_another ''telemetry'' (PBool True) three_listeners)) ''telemetry''
       = Some [0, 1, 2, 7]"
proof -
  have l: "listeners three_listeners ''telemetry'' = Some [0, 1, 2]"
    by (simp add: three_listeners_def on_def init_def)
  have q: "\<forall>c \<in> set [0, 1, 2]. list_all (keeps ''telemetry'') (registers_another c)"
    by (simp add: registers_another_def)
  have c: "calls three_listeners = []"
    by (simp add: three_listeners_def on_def init_def)
  have b: "registers_another 0 = [Register ''telemetry'' 7]" "registers_another (Suc 0) = []"
    "registers_another 2 = []"
    by (simp_all add: registers_another_def)
  from emit_delivers_in_order [OF l q, of "PBool True"] l c
  show ?thesis by (simp add: b)
qed

text \<open>
  Claim C1 as stated fails: callbacks 0, 1 and 2 are registered, callback 0 unregisters
  itself when called, and the emit calls 0 and 2 but never 1.
\<close>

theorem emit_skips_after_unregister:
  "listeners three_listeners ''telemetry'' = Some [0, 1, 2]
   \<and> calls three_listeners = []
   \<and> calls (snd (emit unregisters_itself ''telemetry'' (PBool True) three_listeners))
       = [(0, PBool True), (2, PBool True)]"
  by (simp add: three_listeners_def unregisters_itself_def emit_def on_def off_def init_def
      call_def forEach.simps splice1_def)

text \<open>
  Claim C6, as amended. When a callback throws, after callbacks that neither throw nor
  unregister from the event, \<open>emit\<close> has called the callbacks up to and including the
  throwing one, each once and in order, calls none of the later ones, and the thrown
  value leaves \<open>emit\<close>. What the throwing callback does before it throws does not
  matter.
\<close>

theorem emit_stops_at_throw:
  assumes "listeners s e = Some (pre @ c # post)"
    and "\<forall>x \<in> set pre. list_all (keeps e) (beh x)"
    and "beh c = as @ Throw t # rest" and "list_all (\<lambda>a. \<not> is_throw a) as"
  shows "fst (emit beh e d s) = Some t
       \<and> calls (snd (emit beh e d s)) = calls s @ map (\<lambda>x. (x, d)) (pre @ [c])"
proof -
  let ?l = "pre @ c # post"
  have "\<forall>i. 0 \<le> i \<and> i < length pre \<longrightarrow> list_all (keeps e) (beh (?l ! i))"
    using assms(2) by (simp add: nth_append)
  from forEach_run [OF this, of s "[]" "length ?l" d] assms(1)
  obtain s1 where s1: "forEach beh e d 0 (length ?l) s = forEach beh e d (length pre) (length ?l) s1"
    "calls s1 = calls s @ map (\<lambda>x. (x, d)) pre"
    "listeners s1 e = Some (?l @ concat (map (\<lambda>c. registered e (beh c)) pre))"
    by auto
  from call_throws [of beh c as t rest d s1, OF assms(3) assms(4)]
  obtain s2 where s2: "call beh c d s1 = (Some t, s2)" "calls s2 = calls s1 @ [(c, d)]"
    by auto
  have "forEach beh e d (length pre) (length ?l) s1 = (Some t, s2)"
    using s1(3) s2(1) by (subst forEach.simps) (simp add: nth_append)
  then show ?thesis using s1 s2 assms(1) by (simp add: emit_def)
qed

theorem emit_stops_at_throw_witness:
  "listeners three_listeners ''telemetry'' = Some ([0] @ 1 # [2])
   \<and> list_all (keeps ''telemetry'') (second_unregisters_and_throws 0)
   \<and> second_unregisters_and_throws 1
       = [Unregister ''telemetry'' 1] @ Throw (Error ''boom'') # []
   \<and> list_all (\<lambda>a. \<not> is_throw a) [Unregister ''telemetry'' 1]
   \<and> fst (emit second_unregisters_and_throws ''telemetry'' (PBool True) three_listeners)
       = Some (Error ''boom'')
   \<and> calls (snd (emit second_unregisters_and_throws ''telemetry'' (PBool True) three_listeners))
       = [(0, PBool True), (1, PBool True)]"
proof -
  have l: "listeners three_listeners ''telemetry'' = Some ([0] @ 1 # [2])"
    by (simp add: three_listeners_def on_def init_def)
  have q: "\<forall>x \<in> set [0]. list_all (keeps ''telemetry'') (second_unregisters_and_throws x)"
    by (simp add: second_unregisters_and_throws_def)
  have b: "second_unregisters_and_throws 1
      = [Unregister ''telemetry'' 1] @ Throw (Error ''boom'') # []"
    by (simp add: second_unregisters_and_throws_def)
  have k: "list_all (\<lambda>a. \<not> is_throw a) [Unregister ''telemetry'' 1]" by simp
  have c: "calls three_listeners = []"
    by (simp add: three_listeners_def on_def init_def)
  note th = emit_stops_at_throw [of three_listeners "''telemetry''" "[0]" 1 "[2]"
      second_unregisters_and_throws "[Unregister ''telemetry'' 1]" "Error ''boom''" "[]"
      "PBool True", OF l q b k]
  have r1: "fst (emit second_unregisters_and_throws ''telemetry'' (PBool True) three_listeners)
       = Some (Error ''boom'')"
    using th by blast
  have r2: "calls (snd (emit second_unregisters_and_throws ''telemetry'' (PBool True) three_listeners))
       = calls three_listeners @ map (\<lambda>x. (x, PBool True)) ([0] @ [1])"
    using th by blast
  have r3: "calls (snd (emit second_unregisters_and_throws ''telemetry'' (PBool True) three_listeners))
       = [(0, PBool True), (1, PBool True)]"
    unfolding r2 c by simp
  have q0: "list_all (keeps ''telemetry'') (second_unregisters_and_throws 0)"
    by (simp add: second_unregisters_and_throws_def)
  show ?thesis using l q0 b k r1 r3 by blast
qed

text \<open>
  Claim C6 as stated fails: callbacks 0, 1 and 2 are registered, callback 0 throws, and
  the emit calls neither 1 nor 2 and lets the thrown value out.
\<close>

theorem emit_throw_escapes:
  "listeners three_listeners ''telemetry'' = Some [0, 1, 2]
   \<and> fst (emit first_throws ''telemetry'' (PBool True) three_listeners) = Some (Error ''boom'')
   \<and> calls (snd (emit first_throws ''telemetry'' (PBool True) three_listeners)) = [(0, PBool True)]"
  by (simp add: three_listeners_def first_throws_def emit_def on_def init_def
      call_def forEach.simps)

section \<open>Subscription hook\<close>

text \<open>
  Claim C9. With a plant id and the hook enabled: a fetch that resolves with
  \<open>success = false\<close> sets the error to the response's message, or to the fallback when
  the message is missing or empty, and a fetch that is rejected sets it to the message of
  the thrown value; both leave the data and \<open>lastUpdated\<close> held before as they were.
  Whenever \<open>fetchData\<close> changes the data or \<open>lastUpdated\<close>, the fetch resolved with
  \<open>success = true\<close>.
\<close>

theorem fetchData_failure_keeps_snapshot:
  assumes "plantId = Some p" and "p \<noteq> []" and "enabled"
  shows "(\<not> success r \<longrightarrow>
            h_error (fetchData plantId enabled (Inr r) nowISO h)
              = Some (or_else (error r) ''Failed to fetch plant data'')
          \<and> h_data (fetchData plantId enabled (Inr r) nowISO h) = h_data h
          \<and> h_lastUpdated (fetchData plantId enabled (Inr r) nowISO h) = h_lastUpdated h)
       \<and> (h_error (fetchData plantId enabled (Inl err) nowISO h) = Some (message err)
          \<and> h_data (fetchData plantId enabled (Inl err) nowISO h) = h_data h
          \<and> h_lastUpdated (fetchData plantId enabled (Inl err) nowISO h) = h_lastUpdated h)
       \<and> (h_data (fetchData plantId enabled result nowISO h) \<noteq> h_data h
            \<or> h_lastUpdated (fetchData plantId enabled result nowISO h) \<noteq> h_lastUpdated h
          \<longrightarrow> (\<exists>r'. result = Inr r' \<and> success r'))"
  using assms by (cases result) (auto simp add: fetchData_def Let_def)

theorem fetchData_failure_keeps_snapshot_witness:
  "h_error (fetchData (Some ''p1'') True (Inr failed_response) ''2025-09-07T10:05:01.000Z'' held_snapshot)
     = Some ''HTTP 500: Internal Server Error''
   \<and> h_data (fetchData (Some ''p1'') True (Inr failed_response) ''2025-09-07T10:05:01.000Z'' held_snapshot)
     = Some (JObj [(''id'', JStr ''p1'')])
   \<and> h_lastUpdated (fetchData (Some ''p1'') True (Inr failed_response) ''2025-09-07T10:05:01.000Z'' held_snapshot)
     = Some ''2025-09-07T10:00:00.000Z''"
proof -
  have a: "Some ''p1'' = Some ''p1''" "''p1'' \<noteq> []" "True" by simp_all
  have f: "\<not> success failed_response" by (simp add: failed_response_def)
  from fetchData_failure_keeps_snapshot [OF a, of failed_response "''2025-09-07T10:05:01.000Z''" held_snapshot] f
  show ?thesis by (simp add: failed_response_def held_snapshot_def)
qed

section \<open>Stream manager\<close>

lemma connecting_state:
  "ws connecting = Some 0" "sockets connecting = [CONNECTING]"
  "listeners connecting ''telemetry'' = Some [0]" "calls connecting = []"
  "timers connecting = []" "uncaught connecting = []"
  by (simp_all add: connecting_def connectWebSocket_def defaultConfig_def any_url_def
      readyState_def on_def init_def)

lemma opened_eq:
  "opened = connecting\<lparr>sockets := [OPEN], console := [''WebSocket connected'']\<rparr>"
  by (simp add: opened_def dispatch_def onopen_def emit_def log_def
      handled_def connecting_def connectWebSocket_def defaultConfig_def any_url_def
      readyState_def on_def init_def)

lemma opened_state:
  "ws opened = Some 0" "sockets opened = [OPEN]"
  "listeners opened ''telemetry'' = Some [0]" "calls opened = []"
  "timers opened = []" "uncaught opened = []"
  by (simp_all add: opened_eq connecting_state)

text \<open>
  Claim C7, as amended. While the current socket is open, \<open>connectWebSocket\<close> changes
  nothing: calling it any number of times leaves the one socket.
\<close>

theorem connect_noop_when_open:
  assumes "readyState s = Some OPEN"
  shows "connectWebSocket url_ok cfg s = s
       \<and> connectWebSocket url_ok cfg (connectWebSocket url_ok cfg s) = s"
  using assms by (simp add: connectWebSocket_def split: option.splits)

theorem connect_noop_when_open_witness:
  "readyState opened = Some OPEN
   \<and> sockets opened = [OPEN]
   \<and> sockets (connectWebSocket any_url defaultConfig (connectWebSocket any_url defaultConfig opened))
       = [OPEN]"
proof -
  have r: "readyState opened = Some OPEN" by (simp add: readyState_def opened_state)
  from connect_noop_when_open [OF r, of any_url defaultConfig] r
  show ?thesis by (simp add: opened_state)
qed

text \<open>
  Claim C7 as stated fails: a second \<open>connectWebSocket\<close> while the first socket is still
  connecting constructs a second socket.
\<close>

theorem connect_twice_while_connecting:
  "readyState connecting = Some CONNECTING
   \<and> sockets connecting = [CONNECTING]
   \<and> sockets (connectWebSocket any_url defaultConfig connecting) = [CONNECTING, CONNECTING]"
  by (simp add: connectWebSocket_def readyState_def connecting_state defaultConfig_def
      any_url_def)

text \<open>
  Claim C2, as amended. \<open>disconnectWebSocket\<close> clears the socket handle and closes the
  socket it held: a connecting or open socket starts closing, a socket already closing or
  closed stays as it is. No other socket is touched.
\<close>

theorem disconnect_closes_and_clears:
  "ws (disconnectWebSocket s) = None
   \<and> length (sockets (disconnectWebSocket s)) = length (sockets s)
   \<and> (\<forall>k. ws s = Some k \<and> k < length (sockets s)
          \<and> (sockets s ! k = CONNECTING \<or> sockets s ! k = OPEN)
        \<longrightarrow> sockets (disconnectWebSocket s) ! k = CLOSING)
   \<and> (\<forall>k. ws s = Some k \<and> (sockets s ! k = CLOSING \<or> sockets s ! k = CLOSED)
        \<longrightarrow> sockets (disconnectWebSocket s) ! k = sockets s ! k)
   \<and> (\<forall>j. ws s \<noteq> Some j \<longrightarrow> sockets (disconnectWebSocket s) ! j = sockets s ! j)"
  by (auto simp add: disconnectWebSocket_def close_def split: option.splits)

theorem disconnect_closes_and_clears_witness:
  "ws opened = Some 0
   \<and> sockets opened = [OPEN]
   \<and> ws (disconnectWebSocket opened) = None
   \<and> length (sockets (disconnectWebSocket opened)) = 1
   \<and> sockets (disconnectWebSocket opened) ! 0 = CLOSING"
  using disconnect_closes_and_clears [of opened] by (simp add: opened_state)

lemma disconnected_eq:
  "disconnected = opened\<lparr>ws := None, sockets := [CLOSED],
      console := [''WebSocket connected'', ''WebSocket disconnected''], timers := [5000]\<rparr>"
  by (simp add: disconnected_def disconnectWebSocket_def close_def dispatch_def onclose_def
      emit_def log_def handled_def opened_eq connecting_def connectWebSocket_def
      defaultConfig_def any_url_def readyState_def on_def init_def)

text \<open>
  Claim C2 as stated fails: after \<open>disconnectWebSocket\<close> on an open socket, the close
  event of that socket runs \<open>onclose\<close>, which sets the reconnect timeout; within twice
  the delay the timeout has run \<open>connectWebSocket\<close> and a second socket is connecting.
\<close>

theorem reconnect_after_disconnect:
  "ws (disconnectWebSocket opened) = None
   \<and> timers disconnected = [5000]
   \<and> sockets disconnected = [CLOSED]
   \<and> sockets (advance any_url defaultConfig 10000 disconnected) = [CLOSED, CONNECTING]
   \<and> ws (advance any_url defaultConfig 10000 disconnected) = Some 1"
  by (simp add: disconnected_eq opened_state disconnectWebSocket_def advance_def
      connectWebSocket_def readyState_def defaultConfig_def any_url_def)

lemma emit_run:
  assumes "listeners s e = Some l" and "\<forall>c \<in> set l. list_all (keeps e) (beh c)"
  shows "\<exists>s'. emit beh e d s = (None, s') \<and> calls s' = calls s @ map (\<lambda>c. (c, d)) l"
proof -
  have "\<forall>i. 0 \<le> i \<and> i < length l \<longrightarrow> list_all (keeps e) (beh (l ! i))"
    using assms(2) by simp
  from forEach_run [OF this, of s "[]" "length l" d] assms(1)
  show ?thesis by (auto simp add: emit_def forEach_done)
qed

text \<open>
  Claim C8, as amended. A frame that \<open>JSON.parse\<close> rejects makes \<open>onmessage\<close> write one console line
  and nothing else: no exception leaves the handler, and the sockets, the socket handle,
  the timers and the listeners are as before. The next frame, a valid envelope with a
  string type \<open>e\<close>, is handed to \<open>emit\<close> with the envelope's data; when the subscribers of
  \<open>e\<close> neither throw nor unregister from \<open>e\<close>, each of them is called with that data, in
  order.
\<close>

theorem malformed_frame_dropped:
  assumes "parse bad = None"
    and "parse good = Some (JObj kvs)" and "map_of kvs ''type'' = Some (JStr e)"
    and "k < length (sockets s)" and "sockets s ! k = OPEN"
  shows "fst (onmessage beh parse bad s) = None
       \<and> dispatch beh parse k (EvMessage bad) s = log ''WebSocket message parse error:'' s
       \<and> uncaught (dispatch beh parse k (EvMessage bad) s) = uncaught s
       \<and> sockets (dispatch beh parse k (EvMessage bad) s) = sockets s
       \<and> ws (dispatch beh parse k (EvMessage bad) s) = ws s
       \<and> fst (onmessage beh parse good (dispatch beh parse k (EvMessage bad) s)) = None
       \<and> snd (onmessage beh parse good (dispatch beh parse k (EvMessage bad) s))
           = (case emit beh e (to_payload (map_of kvs ''data''))
                     (dispatch beh parse k (EvMessage bad) s) of
                (None, s') \<Rightarrow> s'
              | (Some t, s') \<Rightarrow> log ''WebSocket message parse error:'' s')
       \<and> (listeners s e = Some l \<and> (\<forall>c \<in> set l. list_all (keeps e) (beh c)) \<longrightarrow>
            calls (dispatch beh parse k (EvMessage good) (dispatch beh parse k (EvMessage bad) s))
              = calls s @ map (\<lambda>c. (c, to_payload (map_of kvs ''data''))) l)"
proof -
  let ?s1 = "log ''WebSocket message parse error:'' s"
  have bad: "onmessage beh parse bad s = (None, ?s1)"
    using assms(1) by (simp add: onmessage_def)
  have d1: "dispatch beh parse k (EvMessage bad) s = ?s1"
    using assms(4,5) bad by (simp add: dispatch_def handled_def)
  have good: "onmessage beh parse good ?s1
      = (None, case emit beh e (to_payload (map_of kvs ''data'')) ?s1 of
                 (None, s') \<Rightarrow> s'
               | (Some t, s') \<Rightarrow> log ''WebSocket message parse error:'' s')"
    using assms(2,3) by (simp add: onmessage_def split: prod.splits option.splits)
  have deliv: "calls (dispatch beh parse k (EvMessage good) ?s1)
      = calls s @ map (\<lambda>c. (c, to_payload (map_of kvs ''data''))) l"
    if l: "listeners s e = Some l" and q: "\<forall>c \<in> set l. list_all (keeps e) (beh c)"
  proof -
    have "listeners ?s1 e = Some l" using l by (simp add: log_def)
    from emit_run [OF this q, of "to_payload (map_of kvs ''data'')"]
    obtain s' where s': "emit beh e (to_payload (map_of kvs ''data'')) ?s1 = (None, s')"
      "calls s' = calls ?s1 @ map (\<lambda>c. (c, to_payload (map_of kvs ''data''))) l"
      by auto
    have "dispatch beh parse k (EvMessage good) ?s1 = s'"
      using assms(4,5) good s'(1) by (simp add: dispatch_def handled_def log_def)
    then show ?thesis using s'(2) by (simp add: log_def)
  qed
  show ?thesis
    using bad d1 good deliv by (simp add: log_def)
qed

theorem malformed_frame_dropped_witness:
  "parse_example ''{'' = None
   \<and> parse_example telemetry_frame
       = Some (JObj [(''type'', JStr ''telemetry''), (''data'', JObj [(''id'', JStr ''p1'')])])
   \<and> sockets opened ! 0 = OPEN
   \<and> listeners opened ''telemetry'' = Some [0]
   \<and> list_all (keeps ''telemetry'') (quiet 0)
   \<and> uncaught (dispatch quiet parse_example 0 (EvMessage ''{'') opened) = []
   \<and> sockets (dispatch quiet parse_example 0 (EvMessage ''{'') opened) = [OPEN]
   \<and> calls (dispatch quiet parse_example 0 (EvMessage telemetry_frame)
              (dispatch quiet parse_example 0 (EvMessage ''{'') opened))
       = [(0, PJson (JObj [(''id'', JStr ''p1'')]))]"
proof -
  let ?kvs = "[(''type'', JStr ''telemetry''), (''data'', JObj [(''id'', JStr ''p1'')])]"
  have b: "parse_example ''{'' = None"
    by (simp add: parse_example_def telemetry_frame_def)
  have g: "parse_example telemetry_frame = Some (JObj ?kvs)"
    by (simp add: parse_example_def)
  have t: "map_of ?kvs ''type'' = Some (JStr ''telemetry'')" by simp
  have k: "0 < length (sockets opened)" "sockets opened ! 0 = OPEN"
    by (simp_all add: opened_state)
  have q: "\<forall>c \<in> set [0]. list_all (keeps ''telemetry'') (quiet c)"
    by (simp add: quiet_def)
  note th = malformed_frame_dropped [of parse_example "''{''" telemetry_frame ?kvs
      "''telemetry''" 0 opened quiet "[0]", OF b g t k]
  have u: "uncaught (dispatch quiet parse_example 0 (EvMessage ''{'') opened) = uncaught opened"
    using th by blast
  have s: "sockets (dispatch quiet parse_example 0 (EvMessage ''{'') opened) = sockets opened"
    using th by blast
  have c: "calls (dispatch quiet parse_example 0 (EvMessage telemetry_frame)
              (dispatch quiet parse_example 0 (EvMessage ''{'') opened))
       = calls opened @ map (\<lambda>c. (c, to_payload (map_of ?kvs ''data''))) [0]"
    using th q opened_state(3) by blast
  show ?thesis
    using b g k(2) u s c by (simp add: opened_state quiet_def)
qed

lemma opened_three_eq:
  "opened_three = three_listeners\<lparr>ws := Some 0, sockets := [OPEN],
      console := [''WebSocket connected'']\<rparr>"
  by (simp add: opened_three_def dispatch_def onopen_def emit_def log_def handled_def
      connectWebSocket_def defaultConfig_def any_url_def readyState_def three_listeners_def
      on_def init_def)

text \<open>
  Claim C8 as stated fails: with three telemetry subscribers of which the first throws,
  the valid frame that follows the malformed one reaches the first subscriber only; the
  \<open>catch\<close> of \<open>onmessage\<close> takes the exception and the other two are never called.
\<close>

theorem valid_frame_not_delivered_to_all:
  "listeners opened_three ''telemetry'' = Some [0, 1, 2]
   \<and> sockets opened_three = [OPEN]
   \<and> parse_example ''{'' = None
   \<and> parse_example telemetry_frame
       = Some (JObj [(''type'', JStr ''telemetry''), (''data'', JObj [(''id'', JStr ''p1'')])])
   \<and> calls (dispatch first_throws parse_example 0 (EvMessage ''{'') opened_three) = []
   \<and> calls (dispatch first_throws parse_example 0 (EvMessage telemetry_frame)
              (dispatch first_throws parse_example 0 (EvMessage ''{'') opened_three))
       = [(0, PJson (JObj [(''id'', JStr ''p1'')]))]"
proof -
  have p: "parse_example ''{'' = None" by (simp add: parse_example_def telemetry_frame_def)
  have g: "parse_example telemetry_frame
       = Some (JObj [(''type'', JStr ''telemetry''), (''data'', JObj [(''id'', JStr ''p1'')])])"
    by (simp add: parse_example_def)
  have l: "listeners opened_three ''telemetry'' = Some [0, 1, 2]" "sockets opened_three = [OPEN]"
    "calls opened_three = []"
    by (simp_all add: opened_three_eq three_listeners_def on_def init_def)
  have d1: "dispatch first_throws parse_example 0 (EvMessage ''{'') opened_three
      = log ''WebSocket message parse error:'' opened_three"
    by (simp add: dispatch_def onmessage_def handled_def p l)
  have c1: "calls (dispatch first_throws parse_example 0 (EvMessage ''{'') opened_three) = []"
    by (simp add: d1 log_def l)
  have c2: "calls (dispatch first_throws parse_example 0 (EvMessage telemetry_frame)
              (dispatch first_throws parse_example 0 (EvMessage ''{'') opened_three))
       = [(0, PJson (JObj [(''id'', JStr ''p1'')]))]"
    unfolding d1
    by (simp add: dispatch_def onmessage_def handled_def g l log_def emit_def
        forEach.simps call_def first_throws_def)
  show ?thesis using p g l(1,2) c1 c2 by blast
qed

section \<open>Request executor\<close>

lemma only_bus_refl: "only_bus s s"
  by (simp add: only_bus_def)

lemma only_bus_trans: "only_bus s s' \<Longrightarrow> only_bus s' s'' \<Longrightarrow> only_bus s s''"
  unfolding only_bus_def by (metis (no_types, lifting) state.surjective state.update_convs(3,10))

lemma only_bus_on: "only_bus s (on e c s)"
  by (simp add: only_bus_def on_def Let_def split: option.splits)

lemma only_bus_off: "only_bus s (off e c s)"
  by (simp add: only_bus_def off_def split: option.splits)

lemma run_actions_bus: "only_bus s (snd (run_actions as s))"
proof (induction as s rule: run_actions.induct)
  case (2 e c as s)
  then show ?case using only_bus_on only_bus_trans by fastforce
next
  case (3 e c as s)
  then show ?case using only_bus_off only_bus_trans by fastforce
qed (simp_all add: only_bus_refl)

lemma run_actions_no_throw:
  "list_all (\<lambda>a. \<not> is_throw a) as \<Longrightarrow> fst (run_actions as s) = None"
  by (induction as s rule: run_actions.induct) simp_all

lemma call_bus: "only_bus s (snd (call beh c d s))"
proof -
  have "only_bus s (s\<lparr>calls := calls s @ [(c, d)]\<rparr>)" by (simp add: only_bus_def)
  then show ?thesis unfolding call_def using run_actions_bus only_bus_trans by blast
qed

lemma call_no_throw: "never_throws beh \<Longrightarrow> fst (call beh c d s) = None"
  by (simp add: call_def never_throws_def run_actions_no_throw)

lemma forEach_bus: "only_bus s (snd (forEach beh e d k len s))"
proof (induction beh e d k len s rule: forEach.induct)
  case (1 beh e d k len s)
  show ?case
  proof (cases "k < len")
    case False
    then show ?thesis by (subst forEach.simps) (simp add: only_bus_refl)
  next
    case k: True
    show ?thesis
    proof (cases "listeners s e")
      case None
      with k 1(1) show ?thesis by (subst forEach.simps) simp
    next
      case (Some l)
      show ?thesis
      proof (cases "k < length l")
        case False
        with k Some 1(3) show ?thesis by (subst forEach.simps) simp
      next
        case True
        obtain r s' where c: "call beh (l ! k) d s = (r, s')" by (cases "call beh (l ! k) d s")
        have b: "only_bus s s'" using call_bus [of s beh "l ! k" d] c by simp
        show ?thesis
        proof (cases r)
          case None
          with 1(2) [OF k Some True] c have "only_bus s' (snd (forEach beh e d (Suc k) len s'))"
            by simp
          with b have "only_bus s (snd (forEach beh e d (Suc k) len s'))"
            using only_bus_trans by blast
          with k Some True c None show ?thesis by (subst forEach.simps) simp
        next
          case (Some t)
          with k \<open>listeners s e = Some l\<close> True c b show ?thesis
            by (subst forEach.simps) simp
        qed
      qed
    qed
  qed
qed

lemma forEach_no_throw:
  "never_throws beh \<Longrightarrow> fst (forEach beh e d k len s) = None"
proof (induction beh e d k len s rule: forEach.induct)
  case (1 beh e d k len s)
  show ?case
  proof (cases "k < len")
    case False
    then show ?thesis by (subst forEach.simps) simp
  next
    case k: True
    show ?thesis
    proof (cases "listeners s e")
      case None
      with k 1(1) 1(4) show ?thesis by (subst forEach.simps) simp
    next
      case (Some l)
      show ?thesis
      proof (cases "k < length l")
        case False
        with k Some 1(3) 1(4) show ?thesis by (subst forEach.simps) simp
      next
        case True
        obtain r s' where c: "call beh (l ! k) d s = (r, s')" by (cases "call beh (l ! k) d s")
        have r: "r = None" using call_no_throw [OF 1(4), of "l ! k" d s] c by simp
        with 1(2) [OF k Some True] c 1(4) have "fst (forEach beh e d (Suc k) len s') = None"
          by simp
        with k Some True c r show ?thesis by (subst forEach.simps) simp
      qed
    qed
  qed
qed

lemma emit_bus: "only_bus s (snd (emit beh e d s))"
  by (simp add: emit_def only_bus_refl forEach_bus split: option.splits)

lemma emit_no_throw: "never_throws beh \<Longrightarrow> fst (emit beh e d s) = None"
  by (simp add: emit_def forEach_no_throw split: option.splits)

lemma only_bus_fields:
  assumes "only_bus s s'"
  shows "heap s' = heap s" "connectionStatus s' = connectionStatus s" "nextAddr s' = nextAddr s"
    "now s' = now s" "trace s' = trace s" "ws s' = ws s" "sockets s' = sockets s"
    "timers s' = timers s" "console s' = console s" "uncaught s' = uncaught s"
proof -
  let ?x = "s\<lparr>listeners := listeners s', calls := calls s'\<rparr>"
  have e: "s' = ?x" using assms by (simp add: only_bus_def)
  have "heap ?x = heap s" by simp
  then show "heap s' = heap s" using e by simp
  have "connectionStatus ?x = connectionStatus s" by simp
  then show "connectionStatus s' = connectionStatus s" using e by simp
  have "nextAddr ?x = nextAddr s" by simp
  then show "nextAddr s' = nextAddr s" using e by simp
  have "now ?x = now s" by simp
  then show "now s' = now s" using e by simp
  have "trace ?x = trace s" by simp
  then show "trace s' = trace s" using e by simp
  have "ws ?x = ws s" by simp
  then show "ws s' = ws s" using e by simp
  have "sockets ?x = sockets s" by simp
  then show "sockets s' = sockets s" using e by simp
  have "timers ?x = timers s" by simp
  then show "timers s' = timers s" using e by simp
  have "console ?x = console s" by simp
  then show "console s' = console s" using e by simp
  have "uncaught ?x = uncaught s" by simp
  then show "uncaught s' = uncaught s" using e by simp
qed

lemma only_bus_status: "only_bus s s' \<Longrightarrow> status s' = status s"
  by (simp add: status_def only_bus_fields)

lemma updateConnectionStatus_effect:
  fixes s beh conn lat
  defines "s' \<equiv> snd (updateConnectionStatus beh conn lat s)"
  shows "now s' = now s" and "trace s' = trace s"
    and "errorCount (status s') = (if conn then 0 else errorCount (status s))"
    and "connected (status s') = conn"
proof -
  let ?new = "\<lparr> connected = conn, lastUpdated = toISOString (now s),
      latency = (case lat of None \<Rightarrow> latency (heap s (connectionStatus s))
                 | Some l \<Rightarrow> if l = 0 then latency (heap s (connectionStatus s)) else l),
      errorCount = (if conn then 0 else errorCount (heap s (connectionStatus s))) \<rparr>"
  let ?m = "s\<lparr>heap := (heap s)(nextAddr s := ?new), nextAddr := Suc (nextAddr s),
      connectionStatus := nextAddr s\<rparr>"
  have s': "s' = snd (emit beh ''connection_status'' (PStatus (nextAddr s)) ?m)"
    by (simp add: s'_def updateConnectionStatus_def Let_def)
  have b: "only_bus ?m s'" unfolding s' by (rule emit_bus)
  have st: "status s' = ?new" using only_bus_status [OF b] by (simp add: status_def)
  show "now s' = now s" using only_bus_fields(4) [OF b] by simp
  show "trace s' = trace s" using only_bus_fields(5) [OF b] by simp
  show "errorCount (status s') = (if conn then 0 else errorCount (status s))"
    using st by (simp add: status_def)
  show "connected (status s') = conn" using st by simp
qed

lemma updateConnectionStatus_no_throw:
  "never_throws beh \<Longrightarrow> fst (updateConnectionStatus beh conn lat s) = None"
  by (simp add: updateConnectionStatus_def Let_def emit_no_throw)

lemma incErrorCount_effect:
  "now (incErrorCount s) = now s" "trace (incErrorCount s) = trace s"
  "errorCount (status (incErrorCount s)) = Suc (errorCount (status s))"
  "connected (status (incErrorCount s)) = connected (status s)"
  by (simp_all add: incErrorCount_def status_def)

text \<open>
  One failing attempt: the \<open>catch\<close> is reached, after one \<open>fetch\<close>; the value caught is
  the attempt's own error when no callback throws.
\<close>

lemma try_block_fails:
  assumes "fails outcome"
  shows "\<exists>err s'. try_block beh outcome st s = (Inl err, s')
        \<and> (never_throws beh \<longrightarrow> err = attempt_error outcome)
        \<and> trace s' = trace s @ [Fetched]
        \<and> errorCount (status (incErrorCount s')) = count_next (errorCount (status s)) outcome"
proof (cases outcome)
  case (Rejects dur t)
  then show ?thesis
    by (simp add: try_block_def Let_def count_next_def incErrorCount_def status_def)
next
  case (Responds dur code reason body)
  let ?s1 = "s\<lparr>trace := trace s @ [Fetched], now := now s + dur\<rparr>"
  let ?u = "updateConnectionStatus beh True (Some (now ?s1 - st)) ?s1"
  obtain r s2 where u: "?u = (r, s2)" by (cases ?u)
  have n: "never_throws beh \<longrightarrow> r = None"
    using updateConnectionStatus_no_throw [of beh True "Some (now ?s1 - st)" ?s1] u by simp
  have e: "trace s2 = trace ?s1" "errorCount (status s2) = 0"
    using updateConnectionStatus_effect(2,3) [of beh True "Some (now ?s1 - st)" ?s1] u by simp_all
  have "\<exists>err. try_block beh outcome st s = (Inl err, s2)
      \<and> (never_throws beh \<longrightarrow> err = attempt_error outcome)"
    using Responds assms u n
    by (cases r) (auto simp add: try_block_def Let_def split: sum.splits)
  then show ?thesis using e Responds by (auto simp add: count_next_def incErrorCount_effect)
qed

lemma schedule_last: "schedule n n = [Fetched]"
  by (simp add: schedule_def)

lemma schedule_step: "a < n \<Longrightarrow> schedule a n = [Fetched, Slept (2 ^ a * 1000)] @ schedule (Suc a) n"
  by (simp add: schedule_def upt_conv_Cons)

text \<open>
  The loop from attempt \<open>a\<close> on, when every remaining attempt fails: a fetch for each
  attempt with the backoff waits in between, the error count folded over the attempts,
  the status disconnected, and, when no callback throws, the failure response with the
  message of the last attempt's error.
\<close>

lemma request_loop_failing:
  assumes "\<forall>i. a \<le> i \<and> i \<le> retryAttempts cfg \<longrightarrow> fails (net i)"
    and "a \<le> retryAttempts cfg"
  shows "\<exists>r s'. request_loop beh cfg net st a s = (r, s')
        \<and> (never_throws beh \<longrightarrow>
             r = Inr \<lparr> success = False, data = None,
                       error = Some (message (attempt_error (net (retryAttempts cfg)))),
                       timestamp = Some (toISOString (now s')) \<rparr>)
        \<and> trace s' = trace s @ schedule a (retryAttempts cfg)
        \<and> errorCount (status s')
            = foldl count_next (errorCount (status s)) (map net [a..<Suc (retryAttempts cfg)])
        \<and> connected (status s') = False"
  using assms
proof (induction "retryAttempts cfg - a" arbitrary: a s)
  case 0
  then have a: "a = retryAttempts cfg" by simp
  have f: "fails (net a)" using 0 by simp
  from try_block_fails [OF f, of beh st s]
  obtain err s1 where s1: "try_block beh (net a) st s = (Inl err, s1)"
    "never_throws beh \<longrightarrow> err = attempt_error (net a)"
    "trace s1 = trace s @ [Fetched]"
    "errorCount (status (incErrorCount s1)) = count_next (errorCount (status s)) (net a)"
    by auto
  let ?u = "updateConnectionStatus beh False None (incErrorCount s1)"
  obtain r3 s3 where u: "?u = (r3, s3)" by (cases ?u)
  have n: "never_throws beh \<longrightarrow> r3 = None"
    using updateConnectionStatus_no_throw [of beh False None "incErrorCount s1"] u by simp
  have e: "trace s3 = trace (incErrorCount s1)"
    "errorCount (status s3) = errorCount (status (incErrorCount s1))"
    "connected (status s3) = False"
    using updateConnectionStatus_effect(2,3,4) [of beh False None "incErrorCount s1"] u
    by simp_all
  have "\<exists>r. request_loop beh cfg net st a s = (r, s3)
      \<and> (never_throws beh \<longrightarrow>
           r = Inr \<lparr> success = False, data = None, error = Some (message (attempt_error (net a))),
                     timestamp = Some (toISOString (now s3)) \<rparr>)"
    using a s1(1,2) u n by (subst request_loop.simps) (cases r3; simp)
  then show ?case
    using a e s1(3,4) by (auto simp add: schedule_last incErrorCount_effect)
next
  case (Suc n)
  then have a: "a < retryAttempts cfg" by simp
  have f: "fails (net a)" using Suc.prems by simp
  from try_block_fails [OF f, of beh st s]
  obtain err s1 where s1: "try_block beh (net a) st s = (Inl err, s1)"
    "trace s1 = trace s @ [Fetched]"
    "errorCount (status (incErrorCount s1)) = count_next (errorCount (status s)) (net a)"
    by auto
  let ?s2 = "sleep (2 ^ a * 1000) (incErrorCount s1)"
  have s2: "trace ?s2 = trace s @ [Fetched, Slept (2 ^ a * 1000)]"
    "errorCount (status ?s2) = count_next (errorCount (status s)) (net a)"
    using s1(2,3) by (simp_all add: sleep_def incErrorCount_effect status_def)
  have n: "n = retryAttempts cfg - Suc a" using Suc.hyps(2) by simp
  have r: "\<forall>i. Suc a \<le> i \<and> i \<le> retryAttempts cfg \<longrightarrow> fails (net i)"
    using Suc.prems(1) by simp
  from Suc.hyps(1) [OF n r, of ?s2] a
  obtain r' s' where s': "request_loop beh cfg net st (Suc a) ?s2 = (r', s')"
    "never_throws beh \<longrightarrow>
       r' = Inr \<lparr> success = False, data = None,
                  error = Some (message (attempt_error (net (retryAttempts cfg)))),
                  timestamp = Some (toISOString (now s')) \<rparr>"
    "trace s' = trace ?s2 @ schedule (Suc a) (retryAttempts cfg)"
    "errorCount (status s')
        = foldl count_next (errorCount (status ?s2)) (map net [Suc a..<Suc (retryAttempts cfg)])"
    "connected (status s') = False"
    by auto
  have "request_loop beh cfg net st a s = request_loop beh cfg net st (Suc a) ?s2"
    using a s1(1) by (subst request_loop.simps) simp
  moreover have "[a..<Suc (retryAttempts cfg)] = a # [Suc a..<Suc (retryAttempts cfg)]"
    using a by (simp add: upt_conv_Cons)
  ultimately show ?case
    using s' s2 a by (simp add: schedule_step)
qed

lemma attempts_append: "attempts (xs @ ys) = attempts xs + attempts ys"
  by (induction xs rule: attempts.induct) simp_all

lemma delays_append: "delays (xs @ ys) = delays xs @ delays ys"
  by (induction xs rule: delays.induct) simp_all

lemma attempts_schedule: "a \<le> n \<Longrightarrow> attempts (schedule a n) = Suc (n - a)"
proof (induction "n - a" arbitrary: a)
  case 0
  then show ?case by (simp add: schedule_last)
next
  case (Suc k)
  then have "a < n" "k = n - Suc a" by simp_all
  with Suc.hyps(1) [of "Suc a"] show ?case by (simp add: schedule_step)
qed

lemma delays_schedule: "a \<le> n \<Longrightarrow> delays (schedule a n) = map (\<lambda>i. 2 ^ i * 1000) [a..<n]"
proof (induction "n - a" arbitrary: a)
  case 0
  then show ?case by (simp add: schedule_last)
next
  case (Suc k)
  then have "a < n" "k = n - Suc a" by simp_all
  with Suc.hyps(1) [of "Suc a"] show ?case by (simp add: schedule_step upt_conv_Cons)
qed

lemma backoff_increasing: "sorted_wrt (<) (map (\<lambda>i. (2::nat) ^ i * 1000) [a..<n])"
  by (simp add: sorted_wrt_map sorted_wrt_iff_nth_less)


text \<open>
  Claim C5, as amended. With \<open>retryAttempts = N\<close> and an endpoint whose attempts all
  fail, \<open>request\<close> makes \<open>N + 1\<close> fetches, waits \<open>2^i * 1000\<close> ms between attempt \<open>i\<close> and
  attempt \<open>i + 1\<close> (strictly increasing delays), and, provided no callback throws, returns
  the failure response with the message of the last attempt's error.
\<close>

theorem request_retries_with_backoff:
  assumes "\<forall>i \<le> retryAttempts cfg. fails (net (baseUrl cfg @ endpoint) i)"
  shows "trace (snd (request beh cfg net endpoint s)) = trace s @ schedule 0 (retryAttempts cfg)
       \<and> attempts (trace (snd (request beh cfg net endpoint s)))
           = attempts (trace s) + retryAttempts cfg + 1
       \<and> delays (trace (snd (request beh cfg net endpoint s)))
           = delays (trace s) @ map (\<lambda>i. 2 ^ i * 1000) [0..<retryAttempts cfg]
       \<and> sorted_wrt (<) (map (\<lambda>i. (2::nat) ^ i * 1000) [0..<retryAttempts cfg])
       \<and> (never_throws beh \<longrightarrow>
            fst (request beh cfg net endpoint s)
              = Inr \<lparr> success = False, data = None,
                      error = Some (message (attempt_error
                                (net (baseUrl cfg @ endpoint) (retryAttempts cfg)))),
                      timestamp = Some (toISOString (now (snd (request beh cfg net endpoint s)))) \<rparr>)"
proof -
  have f: "\<forall>i. 0 \<le> i \<and> i \<le> retryAttempts cfg \<longrightarrow> fails (net (baseUrl cfg @ endpoint) i)"
    using assms by simp
  from request_loop_failing [OF f, of beh "now s" s]
  obtain r s' where r: "request beh cfg net endpoint s = (r, s')"
    "never_throws beh \<longrightarrow>
       r = Inr \<lparr> success = False, data = None,
                 error = Some (message (attempt_error
                           (net (baseUrl cfg @ endpoint) (retryAttempts cfg)))),
                 timestamp = Some (toISOString (now s')) \<rparr>"
    "trace s' = trace s @ schedule 0 (retryAttempts cfg)"
    by (auto simp add: request_def)
  show ?thesis
    using r by (simp add: attempts_append delays_append attempts_schedule delays_schedule
        backoff_increasing)
qed

theorem request_retries_with_backoff_witness:
  "fails (unreachable (baseUrl defaultConfig @ ''/api/v1/plants'') 0)
   \<and> fails (unreachable (baseUrl defaultConfig @ ''/api/v1/plants'') 1)
   \<and> fails (unreachable (baseUrl defaultConfig @ ''/api/v1/plants'') 2)
   \<and> fails (unreachable (baseUrl defaultConfig @ ''/api/v1/plants'') 3)
   \<and> retryAttempts defaultConfig = 3
   \<and> never_throws quiet
   \<and> trace (snd (request quiet defaultConfig unreachable ''/api/v1/plants'' init))
       = [Fetched, Slept 1000, Fetched, Slept 2000, Fetched, Slept 4000, Fetched]
   \<and> attempts (trace (snd (request quiet defaultConfig unreachable ''/api/v1/plants'' init))) = 4
   \<and> delays (trace (snd (request quiet defaultConfig unreachable ''/api/v1/plants'' init)))
       = [1000, 2000, 4000]
   \<and> error (projr (fst (request quiet defaultConfig unreachable ''/api/v1/plants'' init)))
       = Some ''Failed to fetch''
   \<and> success (projr (fst (request quiet defaultConfig unreachable ''/api/v1/plants'' init)))
       = False"
proof -
  have f: "\<forall>i \<le> retryAttempts defaultConfig.
      fails (unreachable (baseUrl defaultConfig @ ''/api/v1/plants'') i)"
    by (simp add: unreachable_def)
  have q: "never_throws quiet" by (simp add: never_throws_def quiet_def)
  have n: "retryAttempts defaultConfig = 3" by (simp add: defaultConfig_def)
  have u: "[0..<3] = [0, 1, 2]" by (simp add: upt_rec)
  have sch: "schedule 0 3 = [Fetched, Slept 1000, Fetched, Slept 2000, Fetched, Slept 4000, Fetched]"
    by (simp add: schedule_def u)
  have i: "trace init = []" by (simp add: init_def)
  note th = request_retries_with_backoff [of defaultConfig unreachable "''/api/v1/plants''"
      quiet init, OF f]
  have t: "trace (snd (request quiet defaultConfig unreachable ''/api/v1/plants'' init))
       = [Fetched, Slept 1000, Fetched, Slept 2000, Fetched, Slept 4000, Fetched]"
    using th n sch i by simp
  have r: "fst (request quiet defaultConfig unreachable ''/api/v1/plants'' init)
      = Inr \<lparr> success = False, data = None,
              error = Some (message (attempt_error
                        (unreachable (baseUrl defaultConfig @ ''/api/v1/plants'') 3))),
              timestamp = Some (toISOString
                (now (snd (request quiet defaultConfig unreachable ''/api/v1/plants'' init)))) \<rparr>"
    using th q n by simp
  show ?thesis
    using f q n by (simp add: t r unreachable_def)
qed

text \<open>
  Claim C5 as stated fails: with a listener for \<open>connection_status\<close> that throws, the
  status update after the last failed attempt lets the exception out of the \<open>catch\<close>
  block, and \<open>request\<close> is rejected instead of returning a failure response.
\<close>

theorem request_rejects_when_listener_throws:
  "retryAttempts no_retry = 0
   \<and> fails (unreachable (baseUrl no_retry @ ''/api/v1/plants'') 0)
   \<and> listeners status_listener ''connection_status'' = Some [0]
   \<and> fst (request first_throws no_retry unreachable ''/api/v1/plants'' status_listener)
       = Inl (Error ''boom'')"
  by (simp add: no_retry_def defaultConfig_def unreachable_def status_listener_def on_def
      init_def request_def request_loop.simps try_block_def incErrorCount_def
      updateConnectionStatus_def emit_def forEach.simps call_def first_throws_def)








text \<open>\<open>request\<close> never reads the timeout of the configuration.\<close>

lemma request_loop_ignores_timeout:
  "request_loop beh (cfg\<lparr>timeout := t\<rparr>) net st n s = request_loop beh cfg net st n s"
proof (induction "Suc (retryAttempts cfg) - n" arbitrary: n s)
  case 0
  then show ?case by (simp add: request_loop.simps)
next
  case (Suc m)
  then have n: "n \<le> retryAttempts cfg" by simp
  obtain r s1 where t: "try_block beh (net n) st s = (r, s1)"
    by (cases "try_block beh (net n) st s")
  show ?case
  proof (cases "n = retryAttempts cfg")
    case True
    with t show ?thesis
      by (subst request_loop.simps, subst (2) request_loop.simps)
         (simp add: Let_def split: sum.splits)
  next
    case False
    have m: "m = Suc (retryAttempts cfg) - Suc n" using Suc.hyps(2) by simp
    show ?thesis
      using n t False Suc.hyps(1) [OF m]
      by (subst request_loop.simps, subst (2) request_loop.simps)
         (simp add: Let_def split: sum.splits)
  qed
qed

lemma request_ignores_timeout:
  "request beh (cfg\<lparr>timeout := t\<rparr>) net endpoint s = request beh cfg net endpoint s"
  by (simp add: request_def request_loop_ignores_timeout)

text \<open>
  Claim C3 fails on the code. With the default configuration (\<open>timeout = 10000\<close>) and a
  server that answers after 20 seconds, the one attempt lasts the 20 seconds and
  \<open>request\<close> returns the success response: the attempt is not cut off at the timeout and
  not retried.
\<close>

theorem slow_attempt_is_not_bounded:
  "timeout defaultConfig = 10000
   \<and> trace (snd (request quiet defaultConfig slow_server ''/api/v1/plants'' init)) = [Fetched]
   \<and> now (snd (request quiet defaultConfig slow_server ''/api/v1/plants'' init)) = 20000
   \<and> latency (status (snd (request quiet defaultConfig slow_server ''/api/v1/plants'' init))) = 20000
   \<and> success (projr (fst (request quiet defaultConfig slow_server ''/api/v1/plants'' init))) = True
   \<and> data (projr (fst (request quiet defaultConfig slow_server ''/api/v1/plants'' init)))
       = Some (JArr [])"
  by (simp add: defaultConfig_def slow_server_def init_def status_def
      request_def request_loop.simps try_block_def ok_def
      updateConnectionStatus_def emit_def quiet_def)

section \<open>The status record handed out\<close>

text \<open>The event bus never reads or writes the heap.\<close>

lemma on_heap: "on e c (s\<lparr>heap := h\<rparr>) = (on e c s)\<lparr>heap := h\<rparr>"
  by (simp add: on_def Let_def split: option.splits)

lemma off_heap: "off e c (s\<lparr>heap := h\<rparr>) = (off e c s)\<lparr>heap := h\<rparr>"
  by (simp add: off_def split: option.splits)

lemma run_actions_heap:
  "run_actions as (s\<lparr>heap := h\<rparr>)
     = (fst (run_actions as s), (snd (run_actions as s))\<lparr>heap := h\<rparr>)"
  by (induction as s rule: run_actions.induct) (simp_all add: on_heap off_heap)

lemma call_heap:
  "call beh c d (s\<lparr>heap := h\<rparr>) = (fst (call beh c d s), (snd (call beh c d s))\<lparr>heap := h\<rparr>)"
proof -
  let ?s = "s\<lparr>calls := calls s @ [(c, d)]\<rparr>"
  have eq: "s\<lparr>heap := h, calls := calls s @ [(c, d)]\<rparr> = ?s\<lparr>heap := h\<rparr>"
    by (cases s) simp
  have "call beh c d (s\<lparr>heap := h\<rparr>)
      = run_actions (beh c) (s\<lparr>heap := h, calls := calls s @ [(c, d)]\<rparr>)"
    by (simp add: call_def)
  also have "\<dots> = run_actions (beh c) (?s\<lparr>heap := h\<rparr>)"
    by (simp only: eq)
  also have "\<dots> = (fst (run_actions (beh c) ?s), (snd (run_actions (beh c) ?s))\<lparr>heap := h\<rparr>)"
    by (rule run_actions_heap)
  finally show ?thesis by (simp add: call_def)
qed

lemma forEach_heap:
  "forEach beh e d k len (s\<lparr>heap := h\<rparr>)
     = (fst (forEach beh e d k len s), (snd (forEach beh e d k len s))\<lparr>heap := h\<rparr>)"
proof (induction beh e d k len s rule: forEach.induct)
  case (1 beh e d k len s)
  show ?case
  proof (cases "k < len")
    case False
    then show ?thesis by (simp add: forEach.simps)
  next
    case k: True
    show ?thesis
    proof (cases "listeners s e")
      case None
      with k 1(1) show ?thesis
        by (subst forEach.simps, subst (2 3) forEach.simps) simp
    next
      case (Some l)
      show ?thesis
      proof (cases "k < length l")
        case False
        with k Some 1(3) show ?thesis
          by (subst forEach.simps, subst (2 3) forEach.simps) simp
      next
        case True
        obtain r s' where c: "call beh (l ! k) d s = (r, s')" by (cases "call beh (l ! k) d s")
        then have ch: "call beh (l ! k) d (s\<lparr>heap := h\<rparr>) = (r, s'\<lparr>heap := h\<rparr>)"
          by (simp add: call_heap)
        show ?thesis
        proof (cases r)
          case None
          with 1(2) [OF k Some True] c
          have "forEach beh e d (Suc k) len (s'\<lparr>heap := h\<rparr>)
              = (fst (forEach beh e d (Suc k) len s'), (snd (forEach beh e d (Suc k) len s'))\<lparr>heap := h\<rparr>)"
            by simp
          with k Some True c ch None show ?thesis
            by (subst forEach.simps, subst (2 3) forEach.simps) simp
        next
          case (Some t)
          with k \<open>listeners s e = Some l\<close> True c ch show ?thesis
            by (subst forEach.simps, subst (2 3) forEach.simps) simp
        qed
      qed
    qed
  qed
qed

lemma emit_heap:
  "emit beh e d (s\<lparr>heap := h\<rparr>) = (fst (emit beh e d s), (snd (emit beh e d s))\<lparr>heap := h\<rparr>)"
  by (simp add: emit_def forEach_heap split: option.splits)

text \<open>
  Hence the bus commutes with a write into the heap, and keeps a foreign address foreign.
\<close>

lemma emit_poke:
  "emit beh e d (poke a v s) = (fst (emit beh e d s), poke a v (snd (emit beh e d s)))"
proof -
  have "heap (snd (emit beh e d s)) = heap s"
    using only_bus_fields(1) [OF emit_bus] .
  then show ?thesis by (simp add: poke_def emit_heap)
qed

lemma emit_foreign: "foreign a s \<Longrightarrow> foreign a (snd (emit beh e d s))"
  using only_bus_fields(2,3) [OF emit_bus [of s beh e d]] by (simp add: foreign_def)

lemma poke_foreign: "foreign a s \<Longrightarrow> foreign a (poke a v s)"
  by (simp add: foreign_def poke_def)

lemma poke_poke: "poke a w (poke a v s) = poke a w s"
  by (simp add: poke_def)

lemma updateConnectionStatus_poke:
  assumes "foreign a s"
  shows "updateConnectionStatus beh conn lat (poke a v s)
           = (fst (updateConnectionStatus beh conn lat s),
              poke a v (snd (updateConnectionStatus beh conn lat s)))"
    and "foreign a (snd (updateConnectionStatus beh conn lat s))"
proof -
  let ?new = "\<lparr> connected = conn, lastUpdated = toISOString (now s),
      latency = (case lat of None \<Rightarrow> latency (heap s (connectionStatus s))
                 | Some l \<Rightarrow> if l = 0 then latency (heap s (connectionStatus s)) else l),
      errorCount = (if conn then 0 else errorCount (heap s (connectionStatus s))) \<rparr>"
  let ?m = "s\<lparr>heap := (heap s)(nextAddr s := ?new), nextAddr := Suc (nextAddr s),
      connectionStatus := nextAddr s\<rparr>"
  have a: "a \<noteq> nextAddr s" "a \<noteq> connectionStatus s" using assms by (simp_all add: foreign_def)
  have u: "updateConnectionStatus beh conn lat s = emit beh ''connection_status'' (PStatus (nextAddr s)) ?m"
    by (simp add: updateConnectionStatus_def Let_def)
  have p: "updateConnectionStatus beh conn lat (poke a v s)
      = emit beh ''connection_status'' (PStatus (nextAddr s)) (poke a v ?m)"
    unfolding updateConnectionStatus_def Let_def using a
    by (intro arg_cong2 [where f = "emit beh ''connection_status''"] state.equality)
       (simp_all add: poke_def fun_upd_twist split: option.splits)
  show "updateConnectionStatus beh conn lat (poke a v s)
           = (fst (updateConnectionStatus beh conn lat s),
              poke a v (snd (updateConnectionStatus beh conn lat s)))"
    unfolding p u by (rule emit_poke)
  have "foreign a ?m" using assms by (simp add: foreign_def)
  then show "foreign a (snd (updateConnectionStatus beh conn lat s))"
    unfolding u by (rule emit_foreign)
qed

lemma incErrorCount_poke:
  assumes "foreign a s"
  shows "incErrorCount (poke a v s) = poke a v (incErrorCount s)"
    and "foreign a (incErrorCount s)"
  using assms by (simp_all add: incErrorCount_def poke_def foreign_def fun_upd_twist)

lemma sleep_poke:
  "sleep ms (poke a v s) = poke a v (sleep ms s)" "foreign a s \<Longrightarrow> foreign a (sleep ms s)"
  by (auto intro!: state.equality simp add: sleep_def poke_def foreign_def)

lemma try_block_poke:
  assumes "foreign a s"
  shows "try_block beh outcome st (poke a v s)
           = (fst (try_block beh outcome st s), poke a v (snd (try_block beh outcome st s)))"
    and "foreign a (snd (try_block beh outcome st s))"
proof -
  show "try_block beh outcome st (poke a v s)
           = (fst (try_block beh outcome st s), poke a v (snd (try_block beh outcome st s)))"
  proof (cases outcome)
    case (Rejects dur t)
    then show ?thesis
      by (auto intro!: state.equality simp add: try_block_def Let_def poke_def)
  next
    case (Responds dur code reason body)
    let ?s1 = "s\<lparr>trace := trace s @ [Fetched], now := now s + dur\<rparr>"
    have f: "foreign a ?s1" using assms by (simp add: foreign_def)
    have e: "(poke a v s)\<lparr>trace := trace (poke a v s) @ [Fetched],
        now := now (poke a v s) + dur\<rparr> = poke a v ?s1"
      by (auto intro!: state.equality simp add: poke_def)
    have n: "now (poke a v s) = now s" "trace (poke a v s) = trace s" by (simp_all add: poke_def)
    obtain r s2 where u: "updateConnectionStatus beh True (Some (now s + dur - st)) ?s1 = (r, s2)"
      by (cases "updateConnectionStatus beh True (Some (now s + dur - st)) ?s1")
    have up: "updateConnectionStatus beh True (Some (now s + dur - st)) (poke a v ?s1)
        = (r, poke a v s2)"
      using updateConnectionStatus_poke(1) [OF f, of beh True "Some (now s + dur - st)" v] u
      by simp
    have t1: "try_block beh outcome st s =
        (case (r, s2) of
           (Some t, s2) \<Rightarrow> (Inl t, s2)
         | (None, s2) \<Rightarrow>
             if \<not> ok code then (Inl (Error (''HTTP '' @ string_of_nat code @ '': '' @ reason)), s2)
             else (case body of Inl t \<Rightarrow> (Inl t, s2)
                   | Inr j \<Rightarrow> (Inr \<lparr> success = True, data = Some j, error = None,
                                      timestamp = Some (toISOString (now s2)) \<rparr>, s2)))"
      using Responds u by (simp add: try_block_def Let_def)
    have t2: "try_block beh outcome st (poke a v s) =
        (case (r, poke a v s2) of
           (Some t, s2) \<Rightarrow> (Inl t, s2)
         | (None, s2) \<Rightarrow>
             if \<not> ok code then (Inl (Error (''HTTP '' @ string_of_nat code @ '': '' @ reason)), s2)
             else (case body of Inl t \<Rightarrow> (Inl t, s2)
                   | Inr j \<Rightarrow> (Inr \<lparr> success = True, data = Some j, error = None,
                                      timestamp = Some (toISOString (now s2)) \<rparr>, s2)))"
      using Responds up e n by (simp add: try_block_def Let_def)
    have "now (poke a v s2) = now s2" by (simp add: poke_def)
    then show ?thesis unfolding t1 t2 by (simp split: option.splits sum.splits)
  qed
  show "foreign a (snd (try_block beh outcome st s))"
  proof (cases outcome)
    case (Rejects dur t)
    then show ?thesis using assms by (simp add: try_block_def Let_def foreign_def)
  next
    case (Responds dur code reason body)
    let ?s1 = "s\<lparr>trace := trace s @ [Fetched], now := now s + dur\<rparr>"
    have f: "foreign a ?s1" using assms by (simp add: foreign_def)
    obtain r s2 where u: "updateConnectionStatus beh True (Some (now s + dur - st)) ?s1 = (r, s2)"
      by (cases "updateConnectionStatus beh True (Some (now s + dur - st)) ?s1")
    have "foreign a s2"
      using updateConnectionStatus_poke(2) [OF f, of beh True "Some (now s + dur - st)"] u by simp
    then show ?thesis
      using Responds u by (simp add: try_block_def Let_def split: option.splits sum.splits)
  qed
qed

lemma request_loop_poke:
  assumes "foreign a s"
  shows "request_loop beh cfg net st n (poke a v s)
           = (fst (request_loop beh cfg net st n s), poke a v (snd (request_loop beh cfg net st n s)))
       \<and> foreign a (snd (request_loop beh cfg net st n s))"
  using assms
proof (induction "Suc (retryAttempts cfg) - n" arbitrary: n s)
  case 0
  then have "\<not> n \<le> retryAttempts cfg" by simp
  then show ?case using 0 by (simp add: request_loop.simps)
next
  case (Suc m)
  then have n: "n \<le> retryAttempts cfg" by simp
  obtain r s1 where t: "try_block beh (net n) st s = (r, s1)"
    by (cases "try_block beh (net n) st s")
  have tp: "try_block beh (net n) st (poke a v s) = (r, poke a v s1)"
    using try_block_poke(1) [OF Suc.prems, of beh "net n" st v] t by simp
  have f1: "foreign a s1" using try_block_poke(2) [OF Suc.prems, of beh "net n" st] t by simp
  show ?case
  proof (cases r)
    case (Inr response)
    with n t tp f1 show ?thesis
      by (subst request_loop.simps, subst (2 3 4) request_loop.simps) simp
  next
    case (Inl err)
    let ?s2 = "incErrorCount s1"
    have f2: "foreign a ?s2" using f1 by (rule incErrorCount_poke(2))
    have i: "incErrorCount (poke a v s1) = poke a v ?s2" using f1 by (rule incErrorCount_poke(1))
    show ?thesis
    proof (cases "n = retryAttempts cfg")
      case True
      obtain r3 s3 where u: "updateConnectionStatus beh False None ?s2 = (r3, s3)"
        by (cases "updateConnectionStatus beh False None ?s2")
      have up: "updateConnectionStatus beh False None (poke a v ?s2) = (r3, poke a v s3)"
        using updateConnectionStatus_poke(1) [OF f2, of beh False None v] u by simp
      have f3: "foreign a s3"
        using updateConnectionStatus_poke(2) [OF f2, of beh False None] u by simp
      have "now (poke a v s3) = now s3" by (simp add: poke_def)
      with True n t tp Inl i u up f3 show ?thesis
        by (subst request_loop.simps, subst (2 3 4) request_loop.simps)
           (simp split: option.splits)
    next
      case False
      let ?s4 = "sleep (2 ^ n * 1000) ?s2"
      have f4: "foreign a ?s4" using f2 by (rule sleep_poke(2))
      have m: "m = Suc (retryAttempts cfg) - Suc n" using Suc.hyps(2) by simp
      have sp: "sleep (2 ^ n * 1000) (poke a v ?s2) = poke a v ?s4" by (rule sleep_poke(1))
      have l: "request_loop beh cfg net st n s = request_loop beh cfg net st (Suc n) ?s4"
        using False n t Inl by (subst request_loop.simps) simp
      have lp: "request_loop beh cfg net st n (poke a v s)
          = request_loop beh cfg net st (Suc n) (poke a v ?s4)"
        using False n tp Inl i sp by (subst request_loop.simps) simp
      show ?thesis unfolding l lp using Suc.hyps(1) [OF m f4] .
    qed
  qed
qed

lemma request_poke:
  assumes "foreign a s"
  shows "snd (request beh cfg net endpoint (poke a v s)) = poke a v (snd (request beh cfg net endpoint s))"
    and "foreign a (snd (request beh cfg net endpoint s))"
proof -
  have "now (poke a v s) = now s" by (simp add: poke_def)
  then show "snd (request beh cfg net endpoint (poke a v s))
      = poke a v (snd (request beh cfg net endpoint s))"
    using request_loop_poke [OF assms, of beh cfg "net (baseUrl cfg @ endpoint)" "now s" 0 v]
    by (simp add: request_def)
  show "foreign a (snd (request beh cfg net endpoint s))"
    using request_loop_poke [OF assms, of beh cfg "net (baseUrl cfg @ endpoint)" "now s" 0 v]
    by (simp add: request_def)
qed

lemma getConnectionStatus_poke:
  assumes "foreign a s"
  shows "snd (getConnectionStatus (poke a v s)) = poke a v (snd (getConnectionStatus s))"
    and "fst (getConnectionStatus (poke a v s)) = fst (getConnectionStatus s)"
    and "foreign a (snd (getConnectionStatus s))"
  using assms
  by (auto intro!: state.equality simp add: getConnectionStatus_def poke_def foreign_def fun_upd_twist)

lemma log_poke: "log line (poke a v s) = poke a v (log line s)"
  by (auto intro!: state.equality simp add: log_def poke_def)

lemma log_foreign: "foreign a s \<Longrightarrow> foreign a (log line s)"
  by (simp add: log_def foreign_def)

lemma connectWebSocket_poke:
  "connectWebSocket url_ok cfg (poke a v s) = poke a v (connectWebSocket url_ok cfg s)"
  by (auto intro!: state.equality
      simp add: connectWebSocket_def readyState_def poke_def log_def split: option.splits)

lemma connectWebSocket_foreign:
  "foreign a s \<Longrightarrow> foreign a (connectWebSocket url_ok cfg s)"
  by (simp add: connectWebSocket_def foreign_def log_def split: option.splits)

lemma disconnectWebSocket_poke:
  "disconnectWebSocket (poke a v s) = poke a v (disconnectWebSocket s)"
  by (auto intro!: state.equality
      simp add: disconnectWebSocket_def close_def poke_def split: option.splits)

lemma disconnectWebSocket_foreign:
  "foreign a s \<Longrightarrow> foreign a (disconnectWebSocket s)"
  by (simp add: disconnectWebSocket_def close_def foreign_def split: option.splits)

lemma handled_poke:
  "handled (r, poke a v s) = poke a v (handled (r, s))"
  by (cases r) (auto intro!: state.equality simp add: handled_def poke_def)

lemma handled_foreign: "foreign a s \<Longrightarrow> foreign a (handled (r, s))"
  by (cases r) (simp_all add: handled_def foreign_def)

lemma onopen_poke:
  "onopen beh (poke a v s) = (fst (onopen beh s), poke a v (snd (onopen beh s)))"
  "foreign a s \<Longrightarrow> foreign a (snd (onopen beh s))"
  by (simp_all add: onopen_def log_poke emit_poke emit_foreign log_foreign)

lemma onerror_poke:
  "onerror beh (poke a v s) = (fst (onerror beh s), poke a v (snd (onerror beh s)))"
  "foreign a s \<Longrightarrow> foreign a (snd (onerror beh s))"
  by (simp_all add: onerror_def log_poke emit_poke emit_foreign log_foreign)

lemma onclose_poke:
  "onclose beh (poke a v s) = (fst (onclose beh s), poke a v (snd (onclose beh s)))"
  "foreign a s \<Longrightarrow> foreign a (snd (onclose beh s))"
proof -
  let ?s = "log ''WebSocket disconnected'' s"
  obtain r s' where e: "emit beh ''ws_disconnected'' (PBool True) ?s = (r, s')"
    by (cases "emit beh ''ws_disconnected'' (PBool True) ?s")
  have ep: "emit beh ''ws_disconnected'' (PBool True) (poke a v ?s) = (r, poke a v s')"
    using emit_poke [of beh "''ws_disconnected''" "PBool True" a v ?s] e by simp
  have t: "(poke a v s')\<lparr>timers := timers (poke a v s') @ [now (poke a v s') + 5000]\<rparr>
      = poke a v (s'\<lparr>timers := timers s' @ [now s' + 5000]\<rparr>)"
    by (auto intro!: state.equality simp add: poke_def)
  show "onclose beh (poke a v s) = (fst (onclose beh s), poke a v (snd (onclose beh s)))"
    using e ep t by (cases r) (simp_all add: onclose_def log_poke)
  assume f: "foreign a s"
  have "foreign a s'" using emit_foreign [OF log_foreign [OF f], of beh "''ws_disconnected''" "PBool True" "''WebSocket disconnected''"] e
    by simp
  then show "foreign a (snd (onclose beh s))"
    using e by (cases r) (simp_all add: onclose_def foreign_def)
qed

lemma emit_message_poke:
  "emit_message beh ty d (poke a v s)
     = (fst (emit_message beh ty d s), poke a v (snd (emit_message beh ty d s)))"
  "foreign a s \<Longrightarrow> foreign a (snd (emit_message beh ty d s))"
  by (induction beh ty d s rule: emit_message.induct) (simp_all add: emit_poke emit_foreign)

lemma onmessage_poke:
  "onmessage beh parse frame (poke a v s)
     = (fst (onmessage beh parse frame s), poke a v (snd (onmessage beh parse frame s)))"
  by (auto simp add: onmessage_def log_poke emit_message_poke(1)
      split: option.splits sum.splits prod.splits)

lemma onmessage_foreign:
  assumes "foreign a s"
  shows "foreign a (snd (onmessage beh parse frame s))"
proof -
  have m: "foreign a s'" if "emit_message beh ty d s = (r, s')" for ty d r s'
    using emit_message_poke(2) [OF assms, of beh ty d] that by simp
  show ?thesis
    using assms
    by (auto simp add: onmessage_def log_foreign split: option.splits sum.splits prod.splits
        intro: m log_foreign [OF m])
qed

lemma dispatch_poke:
  "dispatch beh parse k ev (poke a v s) = poke a v (dispatch beh parse k ev s)"
proof -
  have p: "sockets (poke a v s) = sockets s" by (simp add: poke_def)
  have u: "(poke a v s)\<lparr>sockets := x\<rparr> = poke a v (s\<lparr>sockets := x\<rparr>)" for x
    by (auto intro!: state.equality simp add: poke_def)
  have h: "handled (fst r, poke a v (snd r)) = poke a v (handled r)" for r
    using handled_poke [of "fst r" a v "snd r"] by simp
  show ?thesis
    by (cases ev)
       (simp_all add: dispatch_def p u h onopen_poke(1) onmessage_poke(1) onclose_poke(1)
          onerror_poke(1))
qed

lemma dispatch_foreign:
  assumes "foreign a s"
  shows "foreign a (dispatch beh parse k ev s)"
proof -
  have u: "foreign a (s\<lparr>sockets := x\<rparr>)" for x using assms by (simp add: foreign_def)
  have h: "foreign a (snd r) \<Longrightarrow> foreign a (handled r)" for r
    using handled_foreign [of a "snd r" "fst r"] by simp
  show ?thesis
    using assms
    by (cases ev)
       (simp_all add: dispatch_def u h onopen_poke(2) onmessage_foreign onclose_poke(2)
          onerror_poke(2))
qed

lemma fold_connect_poke:
  "fold (\<lambda>d. connectWebSocket url_ok cfg) due (poke a v s)
     = poke a v (fold (\<lambda>d. connectWebSocket url_ok cfg) due s)"
  by (induction due arbitrary: s) (simp_all add: connectWebSocket_poke)

lemma fold_connect_foreign:
  "foreign a s \<Longrightarrow> foreign a (fold (\<lambda>d. connectWebSocket url_ok cfg) due s)"
  by (induction due arbitrary: s) (simp_all add: connectWebSocket_foreign)

lemma advance_poke:
  "advance url_ok cfg dt (poke a v s) = poke a v (advance url_ok cfg dt s)"
proof -
  have u: "(poke a v s)\<lparr>now := x, timers := y\<rparr> = poke a v (s\<lparr>now := x, timers := y\<rparr>)" for x y
    by (auto intro!: state.equality simp add: poke_def)
  have p: "now (poke a v s) = now s" "timers (poke a v s) = timers s" by (simp_all add: poke_def)
  show ?thesis by (simp add: advance_def Let_def p u fold_connect_poke)
qed

lemma advance_foreign: "foreign a s \<Longrightarrow> foreign a (advance url_ok cfg dt s)"
proof -
  assume "foreign a s"
  then have "foreign a (s\<lparr>now := x, timers := y\<rparr>)" for x y by (simp add: foreign_def)
  then show ?thesis by (simp add: advance_def Let_def fold_connect_foreign)
qed

lemma on_poke: "on e c (poke a v s) = poke a v (on e c s)"
proof -
  have "heap (on e c s) = heap s" using only_bus_fields(1) [OF only_bus_on] .
  then show ?thesis by (simp add: poke_def on_heap)
qed

lemma off_poke: "off e c (poke a v s) = poke a v (off e c s)"
proof -
  have "heap (off e c s) = heap s" using only_bus_fields(1) [OF only_bus_off] .
  then show ?thesis by (simp add: poke_def off_heap)
qed

lemma bus_foreign: "only_bus s s' \<Longrightarrow> foreign a s \<Longrightarrow> foreign a s'"
  by (simp add: foreign_def only_bus_fields)

text \<open>Every operation commutes with a write at a foreign address, and keeps it foreign.\<close>

lemma step_poke:
  assumes "foreign a s"
  shows "step beh parse url_ok cfg op (poke a v s) = poke a v (step beh parse url_ok cfg op s)"
    and "foreign a (step beh parse url_ok cfg op s)"
proof -
  show "step beh parse url_ok cfg op (poke a v s) = poke a v (step beh parse url_ok cfg op s)"
    using assms
    by (cases op)
       (simp_all add: on_poke off_poke request_poke(1) connectWebSocket_poke
          disconnectWebSocket_poke getConnectionStatus_poke(1) dispatch_poke advance_poke)
  show "foreign a (step beh parse url_ok cfg op s)"
    using assms
    by (cases op)
       (simp_all add: bus_foreign [OF only_bus_on] bus_foreign [OF only_bus_off]
          request_poke(2) connectWebSocket_foreign disconnectWebSocket_foreign
          getConnectionStatus_poke(3) dispatch_foreign advance_foreign)
qed

text \<open>
  A history with the caller's writes and the same history without them end in states
  that differ at most in the record the caller holds.
\<close>

lemma run_poke:
  assumes "foreign a s"
  shows "\<exists>v. run beh parse url_ok cfg a steps (poke a w s)
             = poke a v (run beh parse url_ok cfg a (client_steps steps) s)
        \<and> foreign a (run beh parse url_ok cfg a (client_steps steps) s)"
  using assms
proof (induction steps arbitrary: s w)
  case Nil
  then show ?case by auto
next
  case (Cons x steps)
  show ?case
  proof (cases x)
    case (Client op)
    then show ?thesis
      using Cons.IH [OF step_poke(2) [OF Cons.prems], of w beh parse url_ok cfg op]
      by (simp add: step_poke(1) [OF Cons.prems])
  next
    case (Mutate u)
    then show ?thesis using Cons.IH [OF Cons.prems, of u] by (simp add: poke_poke)
  qed
qed

text \<open>Every operation keeps the member referring to an allocated object.\<close>

lemma bus_allocated: "only_bus s s' \<Longrightarrow> allocated s \<Longrightarrow> allocated s'"
  by (simp add: allocated_def only_bus_fields)

lemma updateConnectionStatus_allocated:
  "allocated (snd (updateConnectionStatus beh conn lat s))"
proof -
  have "allocated (s\<lparr>heap := h, nextAddr := Suc (nextAddr s), connectionStatus := nextAddr s\<rparr>)" for h
    by (simp add: allocated_def)
  then show ?thesis
    unfolding updateConnectionStatus_def Let_def using bus_allocated [OF emit_bus] by blast
qed

lemma try_block_allocated:
  "allocated s \<Longrightarrow> allocated (snd (try_block beh outcome st s))"
proof (cases outcome)
  case (Rejects dur t)
  assume "allocated s"
  with Rejects show ?thesis by (simp add: try_block_def Let_def allocated_def)
next
  case (Responds dur code reason body)
  let ?s1 = "s\<lparr>trace := trace s @ [Fetched], now := now s + dur\<rparr>"
  obtain r s2 where u: "updateConnectionStatus beh True (Some (now s + dur - st)) ?s1 = (r, s2)"
    by (cases "updateConnectionStatus beh True (Some (now s + dur - st)) ?s1")
  have "allocated s2"
    using updateConnectionStatus_allocated [of beh True "Some (now s + dur - st)" ?s1] u by simp
  with Responds u show ?thesis
    by (simp add: try_block_def Let_def split: option.splits sum.splits)
qed

lemma request_loop_allocated:
  "allocated s \<Longrightarrow> allocated (snd (request_loop beh cfg net st n s))"
proof (induction "Suc (retryAttempts cfg) - n" arbitrary: n s)
  case 0
  then show ?case by (simp add: request_loop.simps)
next
  case (Suc m)
  then have n: "n \<le> retryAttempts cfg" by simp
  obtain r s1 where t: "try_block beh (net n) st s = (r, s1)"
    by (cases "try_block beh (net n) st s")
  have a1: "allocated s1" using try_block_allocated [OF Suc.prems, of beh "net n" st] t by simp
  show ?case
  proof (cases r)
    case (Inr response)
    with n t a1 show ?thesis by (subst request_loop.simps) simp
  next
    case (Inl err)
    show ?thesis
    proof (cases "n = retryAttempts cfg")
      case True
      obtain r3 s3 where u: "updateConnectionStatus beh False None (incErrorCount s1) = (r3, s3)"
        by (cases "updateConnectionStatus beh False None (incErrorCount s1)")
      have "allocated s3"
        using updateConnectionStatus_allocated [of beh False None "incErrorCount s1"] u by simp
      with True n t Inl u show ?thesis
        by (subst request_loop.simps) (simp split: option.splits)
    next
      case False
      let ?s4 = "sleep (2 ^ n * 1000) (incErrorCount s1)"
      have a4: "allocated ?s4" using a1 by (simp add: allocated_def sleep_def incErrorCount_def)
      have m: "m = Suc (retryAttempts cfg) - Suc n" using Suc.hyps(2) by simp
      have "request_loop beh cfg net st n s = request_loop beh cfg net st (Suc n) ?s4"
        using False n t Inl by (subst request_loop.simps) simp
      then show ?thesis using Suc.hyps(1) [OF m a4] by simp
    qed
  qed
qed

lemma handled_allocated: "allocated (snd r) \<Longrightarrow> allocated (handled r)"
  by (cases r, cases "fst r") (simp_all add: handled_def allocated_def)

lemma emit_allocated: "allocated s \<Longrightarrow> allocated (snd (emit beh e d s))"
  using bus_allocated [OF emit_bus] .

lemma log_allocated: "allocated s \<Longrightarrow> allocated (log line s)"
  by (simp add: log_def allocated_def)

lemma dispatch_allocated:
  assumes "allocated s"
  shows "allocated (dispatch beh parse k ev s)"
proof -
  have u: "allocated (s\<lparr>sockets := x\<rparr>)" for x using assms by (simp add: allocated_def)
  have o: "allocated (snd (onopen beh s'))" if "allocated s'" for s'
    using that by (simp add: onopen_def emit_allocated log_allocated)
  have e: "allocated (snd (onerror beh s'))" if "allocated s'" for s'
    using that by (simp add: onerror_def emit_allocated log_allocated)
  have c: "allocated (snd (onclose beh s'))" if "allocated s'" for s'
  proof -
    obtain r s'' where x: "emit beh ''ws_disconnected'' (PBool True)
        (log ''WebSocket disconnected'' s') = (r, s'')"
      by (cases "emit beh ''ws_disconnected'' (PBool True) (log ''WebSocket disconnected'' s')")
    have "allocated s''"
      using emit_allocated [OF log_allocated [OF that], of beh "''ws_disconnected''" "PBool True"
          "''WebSocket disconnected''"] x by simp
    then show ?thesis
      using x by (cases r) (simp_all add: onclose_def allocated_def)
  qed
  have em: "allocated (snd (emit_message beh ty d s'))" if "allocated s'" for s' ty d
    using that by (induction beh ty d s' rule: emit_message.induct) (simp_all add: emit_allocated)
  have m: "allocated (snd (onmessage beh parse frame s'))" if "allocated s'" for s' frame
  proof -
    have "allocated s''" if "emit_message beh ty d s' = (r, s'')" for ty d r s''
      using em [OF \<open>allocated s'\<close>, of ty d] that by simp
    then show ?thesis
      using that
      by (auto simp add: onmessage_def log_allocated split: option.splits sum.splits prod.splits)
  qed
  show ?thesis
    using assms
    by (cases ev) (simp_all add: dispatch_def handled_allocated u o e c m)
qed

lemma connectWebSocket_allocated:
  "allocated s \<Longrightarrow> allocated (connectWebSocket url_ok cfg s)"
  by (simp add: connectWebSocket_def allocated_def log_def split: option.splits)

lemma advance_allocated: "allocated s \<Longrightarrow> allocated (advance url_ok cfg dt s)"
proof -
  assume "allocated s"
  then have a: "allocated (s\<lparr>now := x, timers := y\<rparr>)" for x y by (simp add: allocated_def)
  have f: "allocated s' \<Longrightarrow> allocated (fold (\<lambda>d. connectWebSocket url_ok cfg) due s')" for due s'
    by (induction due arbitrary: s') (simp_all add: connectWebSocket_allocated)
  show ?thesis unfolding advance_def Let_def by (rule f [OF a])
qed

lemma step_allocated:
  assumes "allocated s"
  shows "allocated (step beh parse url_ok cfg op s)"
proof (cases op)
  case (OpRequest endpoint net)
  then show ?thesis using assms by (simp add: request_def request_loop_allocated)
next
  case OpGetStatus
  then show ?thesis using assms by (simp add: getConnectionStatus_def allocated_def)
next
  case OpDisconnect
  then show ?thesis
    using assms by (simp add: disconnectWebSocket_def close_def allocated_def split: option.splits)
qed (use assms in \<open>simp_all add: bus_allocated [OF only_bus_on] bus_allocated [OF only_bus_off]
      connectWebSocket_allocated dispatch_allocated advance_allocated\<close>)

lemma run_allocated:
  "allocated s \<Longrightarrow> allocated (run beh parse url_ok cfg a steps s)"
proof (induction steps arbitrary: s)
  case Nil
  then show ?case by simp
next
  case (Cons x steps)
  show ?case
  proof (cases x)
    case (Client op)
    then show ?thesis using Cons.IH [OF step_allocated [OF Cons.prems]] by simp
  next
    case (Mutate v)
    have "allocated (poke a v s)" using Cons.prems by (simp add: allocated_def poke_def)
    with Mutate show ?thesis using Cons.IH by simp
  qed
qed

lemma init_allocated: "allocated init"
  by (simp add: allocated_def init_def)

text \<open>
  Claim C10. \<open>getConnectionStatus\<close> returns a new record \<open>a\<close> with the fields of the
  internal status, and \<open>a\<close> is not the internal record. Whatever the caller writes into
  \<open>a\<close>, at once or at any points of any later history of operations, the internal status
  at the end is what it is in the same history without those writes, and so are the
  address and the fields of the record a further \<open>getConnectionStatus\<close> returns.
\<close>

theorem getConnectionStatus_returns_copy:
  assumes "allocated s"
  shows "heap (snd (getConnectionStatus s)) (fst (getConnectionStatus s)) = status s
       \<and> fst (getConnectionStatus s) \<noteq> connectionStatus (snd (getConnectionStatus s))
       \<and> status (poke (fst (getConnectionStatus s)) v (snd (getConnectionStatus s))) = status s
       \<and> status (run beh parse url_ok cfg (fst (getConnectionStatus s)) steps
                    (snd (getConnectionStatus s)))
           = status (run beh parse url_ok cfg (fst (getConnectionStatus s)) (client_steps steps)
                      (snd (getConnectionStatus s)))
       \<and> fst (getConnectionStatus (run beh parse url_ok cfg (fst (getConnectionStatus s)) steps
                    (snd (getConnectionStatus s))))
           = fst (getConnectionStatus (run beh parse url_ok cfg (fst (getConnectionStatus s))
                    (client_steps steps) (snd (getConnectionStatus s))))
       \<and> heap (snd (getConnectionStatus (run beh parse url_ok cfg (fst (getConnectionStatus s))
                    steps (snd (getConnectionStatus s)))))
              (fst (getConnectionStatus (run beh parse url_ok cfg (fst (getConnectionStatus s))
                    steps (snd (getConnectionStatus s)))))
           = status (run beh parse url_ok cfg (fst (getConnectionStatus s)) (client_steps steps)
                      (snd (getConnectionStatus s)))"
proof -
  let ?a = "fst (getConnectionStatus s)"
  let ?s1 = "snd (getConnectionStatus s)"
  let ?t = "run beh parse url_ok cfg ?a steps ?s1"
  let ?u = "run beh parse url_ok cfg ?a (client_steps steps) ?s1"
  have a: "?a = nextAddr s" by (simp add: getConnectionStatus_def)
  have c: "connectionStatus ?s1 = connectionStatus s" by (simp add: getConnectionStatus_def)
  have f: "foreign ?a ?s1"
    using assms by (simp add: foreign_def allocated_def getConnectionStatus_def)
  have copy: "heap ?s1 ?a = status s" by (simp add: getConnectionStatus_def status_def)
  have fresh: "?a \<noteq> connectionStatus ?s1" using f by (simp add: foreign_def)
  have st: "status ?s1 = status s"
    using assms by (simp add: getConnectionStatus_def status_def allocated_def)
  have once: "status (poke ?a v ?s1) = status s"
    using fresh st by (simp add: poke_def status_def)
  have "poke ?a (heap ?s1 ?a) ?s1 = ?s1" by (simp add: poke_def)
  with run_poke [OF f, of beh parse url_ok cfg steps "heap ?s1 ?a"]
  obtain w where w: "?t = poke ?a w ?u" and fu: "foreign ?a ?u" by auto
  have hist: "status ?t = status ?u"
    using fu by (simp add: w poke_def status_def foreign_def)
  have g1: "fst (getConnectionStatus ?t) = fst (getConnectionStatus ?u)"
    unfolding w using fu by (rule getConnectionStatus_poke(2))
  have "heap (snd (getConnectionStatus ?t)) (fst (getConnectionStatus ?t)) = status ?t"
    by (simp add: getConnectionStatus_def status_def)
  then have g2: "heap (snd (getConnectionStatus ?t)) (fst (getConnectionStatus ?t)) = status ?u"
    using hist by simp
  show ?thesis using copy fresh once hist g1 g2 by simp
qed

theorem getConnectionStatus_returns_copy_witness:
  "allocated init
   \<and> fst (getConnectionStatus init) = 1
   \<and> errorCount (heap (snd (getConnectionStatus init)) 1) = 0
   \<and> errorCount (status (poke 1 overwritten (snd (getConnectionStatus init)))) = 0
   \<and> errorCount (status (run quiet parse_example any_url defaultConfig 1
        [Mutate overwritten, Client (OpOn ''telemetry'' 0), Mutate overwritten]
        (snd (getConnectionStatus init)))) = 0"
proof -
  have al: "allocated init" by (simp add: allocated_def init_def)
  have a: "fst (getConnectionStatus init) = 1" by (simp add: getConnectionStatus_def init_def)
  have s0: "errorCount (status init) = 0" by (simp add: status_def init_def)
  have c: "client_steps [Mutate overwritten, Client (OpOn ''telemetry'' 0), Mutate overwritten]
      = [Client (OpOn ''telemetry'' 0)]" by simp
  have o: "status (on ''telemetry'' 0 (snd (getConnectionStatus init))) = status init"
    by (simp add: status_def on_def getConnectionStatus_def init_def)
  note th = getConnectionStatus_returns_copy [OF al, of overwritten quiet parse_example any_url
      defaultConfig "[Mutate overwritten, Client (OpOn ''telemetry'' 0), Mutate overwritten]"]
  have h1: "heap (snd (getConnectionStatus init)) 1 = status init" using th a by simp
  have h2: "status (poke 1 overwritten (snd (getConnectionStatus init))) = status init"
    using th a by simp
  have h3: "status (run quiet parse_example any_url defaultConfig 1
        [Mutate overwritten, Client (OpOn ''telemetry'' 0), Mutate overwritten]
        (snd (getConnectionStatus init)))
      = status (run quiet parse_example any_url defaultConfig 1
        (client_steps [Mutate overwritten, Client (OpOn ''telemetry'' 0), Mutate overwritten])
        (snd (getConnectionStatus init)))"
    using th a by simp
  have r: "run quiet parse_example any_url defaultConfig 1 [Client (OpOn ''telemetry'' 0)]
        (snd (getConnectionStatus init)) = on ''telemetry'' 0 (snd (getConnectionStatus init))"
    by simp
  have e1: "errorCount (heap (snd (getConnectionStatus init)) 1) = 0"
    by (simp only: h1 s0)
  have e2: "errorCount (status (poke 1 overwritten (snd (getConnectionStatus init)))) = 0"
    by (simp only: h2 s0)
  have e3: "errorCount (status (run quiet parse_example any_url defaultConfig 1
        [Mutate overwritten, Client (OpOn ''telemetry'' 0), Mutate overwritten]
        (snd (getConnectionStatus init)))) = 0"
    by (simp only: h3 c r o s0)
  show ?thesis
    using al a e1 e2 e3 by blast
qed

end
